theory Spec2Isabelle
  imports Main "HOL-Library.Word"
begin

unbundle bit_operations_syntax

section \<open>Machine integers\<close>

text \<open>
  The program is Go. \<open>uint32\<close> and \<open>int64\<close> are words of 32 and 64 bits whose
  arithmetic wraps silently; \<open>int64\<close> values are compared as two's complement numbers
  (\<open><s\<close>, \<open>\<le>s\<close>). Go's \<open>int\<close> and \<open>uint\<close> are taken at their width on the
  64-bit targets (amd64, arm64): 64 bits.
\<close>

type_synonym uint32 = "32 word"
type_synonym int64 = "64 word"
type_synonym uint = "64 word"
type_synonym goint = "64 word"

section \<open>Partition Hash (main.go, lines 247-275)\<close>

text \<open>
  \<open>func rotateLeft(x uint32, k uint) uint32 { return (x << k) | (x >> (32 - k)) }\<close>.
  A Go shift by at least the width of the operand gives 0, as \<open>push_bit\<close> and
  \<open>drop_bit\<close> do on words; \<open>32 - k\<close> is computed in \<open>uint\<close> and wraps.
\<close>

definition rotateLeft :: "uint32 \<Rightarrow> uint \<Rightarrow> uint32" where
  "rotateLeft x k = push_bit (unat k) x OR drop_bit (unat (32 - k)) x"

definition hash :: "uint32 \<Rightarrow> uint32" where
  "hash k =
    (let a = (0x9e3779b9 + 4 + 3923095 :: uint32);
         b = a;
         c = a;
         a = a + k;
         c = c XOR b;
         c = c - rotateLeft b 14;
         a = a XOR c;
         a = a - rotateLeft c 11;
         b = b XOR a;
         b = b - rotateLeft a 25;
         c = c XOR b;
         c = c - rotateLeft b 16;
         a = a XOR c;
         a = a - rotateLeft c 4;
         b = b XOR a;
         b = b - rotateLeft a 14;
         c = c XOR b;
         c = c - rotateLeft b 24
     in c)"

subsection \<open>The hash as the specification words it\<close>

text \<open>
  The specification's reading of the hash, kept apart from the code above: \<open>rotl\<close>
  is the circular left rotation of a 32-bit word, the seed is the sum of the golden-ratio
  constant, the length constant and the salt constant, and the mixing sequence is the one
  of section 4.1, step by step on the triple \<open>(a, b, c)\<close>.
\<close>

definition rotl :: "uint32 \<Rightarrow> nat \<Rightarrow> uint32" where
  "rotl x k = word_rotl k x"

definition golden_ratio_constant :: uint32 where
  "golden_ratio_constant = 0x9e3779b9"

definition fixed_length_constant :: uint32 where
  "fixed_length_constant = 4"

definition fixed_salt_constant :: uint32 where
  "fixed_salt_constant = 3923095"

definition seed :: uint32 where
  "seed = golden_ratio_constant + fixed_length_constant + fixed_salt_constant"

type_synonym mixstate = "uint32 \<times> uint32 \<times> uint32"

definition mix_c :: "nat \<Rightarrow> mixstate \<Rightarrow> mixstate" where
  "mix_c k = (\<lambda>(a, b, c). (a, b, (c XOR b) - rotl b k))"

definition mix_a :: "nat \<Rightarrow> mixstate \<Rightarrow> mixstate" where
  "mix_a k = (\<lambda>(a, b, c). ((a XOR c) - rotl c k, b, c))"

definition mix_b :: "nat \<Rightarrow> mixstate \<Rightarrow> mixstate" where
  "mix_b k = (\<lambda>(a, b, c). (a, (b XOR a) - rotl a k, c))"

definition hash_spec :: "uint32 \<Rightarrow> uint32" where
  "hash_spec key =
     (case (mix_c 24 \<circ> mix_b 14 \<circ> mix_a 4 \<circ> mix_c 16 \<circ> mix_b 25 \<circ> mix_a 11 \<circ> mix_c 14)
             (seed + key, seed, seed) of
        (a, b, c) \<Rightarrow> c)"


section \<open>Decimal parsing: Go's strconv.ParseInt at base 10\<close>

text \<open>
  \<open>ProcessCSV\<close> reads both fields with \<open>strconv.ParseInt(s, 10, bitSize)\<close> of the Go
  standard library. The functions below follow \<open>strconv/atoi.go\<close> for base 10: an
  optional sign, then \<open>ParseUint\<close> on the rest, which fails with a syntax error on the
  empty string and on any byte that is not a decimal digit, and with a range error as soon
  as the number leaves \<open>uint64\<close> or exceeds \<open>2 ^ bitSize - 1\<close>; \<open>ParseInt\<close> then
  checks the signed range. The accumulator is a natural number and the two overflow tests
  of the library (\<open>n >= cutoff\<close> before the multiplication, \<open>n1 < n || n1 > maxVal\<close>
  after the addition) are written out on it.
\<close>

datatype numError = ErrSyntax | ErrRange

definition isDigit :: "char \<Rightarrow> bool" where
  "isDigit c = (48 \<le> (of_char c :: nat) \<and> (of_char c :: nat) \<le> 57)"

definition digitVal :: "char \<Rightarrow> nat" where
  "digitVal c = of_char c - 48"

definition cutoff10 :: nat where
  "cutoff10 = (2 ^ 64 - 1) div 10 + 1"

fun parseDigits :: "nat \<Rightarrow> nat \<Rightarrow> string \<Rightarrow> numError + nat" where
  "parseDigits maxVal n [] = Inr n"
| "parseDigits maxVal n (c # cs) =
     (if \<not> isDigit c then Inl ErrSyntax
      else if cutoff10 \<le> n then Inl ErrRange
      else let n1 = n * 10 + digitVal c
           in if 2 ^ 64 \<le> n1 \<or> maxVal < n1 then Inl ErrRange
              else parseDigits maxVal n1 cs)"

definition ParseUint :: "string \<Rightarrow> nat \<Rightarrow> numError + nat" where
  "ParseUint s bitSize =
     (if s = [] then Inl ErrSyntax else parseDigits (2 ^ bitSize - 1) 0 s)"

definition ParseInt :: "string \<Rightarrow> nat \<Rightarrow> numError + int64" where
  "ParseInt s0 bitSize =
     (case s0 of
        [] \<Rightarrow> Inl ErrSyntax
      | c # cs \<Rightarrow>
          let neg = (c = CHR ''-'');
              s = (if c = CHR ''+'' \<or> c = CHR ''-'' then cs else s0);
              cutoff = 2 ^ (bitSize - 1)
          in (case ParseUint s bitSize of
                Inl ErrSyntax \<Rightarrow> Inl ErrSyntax
              | Inl ErrRange \<Rightarrow> Inl ErrRange
              | Inr un \<Rightarrow>
                  if \<not> neg \<and> cutoff \<le> un then Inl ErrRange
                  else if neg \<and> cutoff < un then Inl ErrRange
                  else Inr (if neg then - word_of_nat un else word_of_nat un)))"

section \<open>Data model (main.go, lines 16-37)\<close>

text \<open>
  The fields \<open>max\<close> and \<open>min\<close> carry a suffix, since the names are taken in HOL. The
  progress writer and the file size serve the display only and are left out. The file is
  what the engine can observe of it: whether \<open>Seek\<close> succeeds, the header row, and the
  sequence of results of \<open>reader.Read()\<close> up to the end of the file, \<open>None\<close> marking a
  read that fails. Every scan starts again at the beginning and sees the same sequence.
\<close>

record Partition =
  current :: int64
  max_p :: int64
  errored :: bool

record csvFile =
  seekCurrent :: bool
  seekStart :: bool
  header :: "string list option"
  rows :: "string list option list"

record Config =
  partitions :: goint
  max_c :: int64
  min_c :: int64
  file_c :: csvFile
  iterations :: goint
  outlier :: int64

record Result =
  totalDocuments :: int64
  totalIDs :: int64
  partitionCounts :: "int64 list"

text \<open>
  An entry of \<open>pinnedMessages\<close>: the notice "Skipping outlier DocumentID d with count c
  and partition p", kept as its three arguments.
\<close>

datatype notice = OutlierNotice uint32 int64 uint32

text \<open>The local variables of \<open>ProcessCSV\<close> that live across records and iterations.\<close>

record RunState =
  partitionList :: "Partition list"
  result :: Result
  erroredPartitions :: goint
  pinnedMessages :: "notice list"
  loggedOutliers :: "uint32 \<Rightarrow> bool"

text \<open>
  An error value: \<open>WrapErr p\<close> is \<open>fmt.Errorf(p + ": %w", err)\<close> around a cause of the
  file or the CSV reader, \<open>NewErr m\<close> is \<open>fmt.Errorf(m)\<close>.
\<close>

datatype goerror = WrapErr string | NewErr string

text \<open>
  How a piece of the loop body ends: it goes on with the next record, it leaves the record
  loop (\<open>break\<close>), it panics at run time (index out of range, division by zero), or
  \<open>ProcessCSV\<close> returns with an error.
\<close>

datatype flow = Continue | Break | Panic | Return goerror

datatype outcome = Returned Result "goerror option" | Panics

section \<open>Simulation Engine (main.go, lines 104-245)\<close>

definition initState :: "Config \<Rightarrow> RunState" where
  "initState config =
     (let n = nat (sint (partitions config))
      in \<lparr> partitionList =
             replicate n \<lparr> current = min_c config, max_p = max_c config, errored = False \<rparr>,
           result = \<lparr> totalDocuments = 0, totalIDs = 0, partitionCounts = replicate n 0 \<rparr>,
           erroredPartitions = 0,
           pinnedMessages = [],
           loggedOutliers = (\<lambda>_. False) \<rparr>)"

text \<open>
  Lines 172-183: the two fields of a record. \<open>record[0]\<close> and \<open>record[1]\<close> panic when
  the record is too short; a field that does not parse is reported and the record skipped;
  the key is converted from \<open>int64\<close> to \<open>uint32\<close> by truncation.
\<close>

datatype parsed = IndexPanic | Skipped | Parsed uint32 int64

definition parseRecord :: "string list \<Rightarrow> parsed" where
  "parseRecord record =
     (case record of
        [] \<Rightarrow> IndexPanic
      | r0 # rest \<Rightarrow>
          (case ParseInt r0 32 of
             Inl err \<Rightarrow> Skipped
           | Inr i \<Rightarrow>
               (case rest of
                  [] \<Rightarrow> IndexPanic
                | r1 # _ \<Rightarrow>
                    (case ParseInt r1 64 of
                       Inl err \<Rightarrow> Skipped
                     | Inr count \<Rightarrow> Parsed (ucast i) count))))"

text \<open>Lines 185-186: the two running totals.\<close>

definition countRecord :: "int64 \<Rightarrow> RunState \<Rightarrow> RunState" where
  "countRecord count st =
     st\<lparr> result := (result st)\<lparr> totalDocuments := totalDocuments (result st) + 1,
                                totalIDs := totalIDs (result st) + count \<rparr> \<rparr>"

text \<open>
  Line 193: \<open>partitionIndex := hash(documentID) % uint32(config.partitions)\<close>. The
  conversion to \<open>uint32\<close> keeps the low 32 bits of the \<open>int\<close>; the modulo is the
  unsigned one and panics when the divisor is 0 (\<open>None\<close>).
\<close>

definition partitionIndex :: "goint \<Rightarrow> uint32 \<Rightarrow> uint32 option" where
  "partitionIndex n documentID =
     (if (ucast n :: uint32) = 0 then None else Some (hash documentID mod ucast n))"

text \<open>
  Lines 193-220: the partition of the key, the outlier test, and the update of the
  partition. Indexing \<open>partitionList\<close> or \<open>result.partitionCounts\<close> out of range
  panics.
\<close>

definition routeRecord :: "Config \<Rightarrow> uint32 \<Rightarrow> int64 \<Rightarrow> RunState \<Rightarrow> flow \<times> RunState" where
  "routeRecord config documentID count st =
     (case partitionIndex (partitions config) documentID of
        None \<Rightarrow> (Panic, st)
      | Some idx \<Rightarrow>
          let i = unat idx
          in if length (partitionList st) \<le> i then (Panic, st)
             else
               let partition = partitionList st ! i
               in if outlier config <s count \<and> \<not> loggedOutliers st documentID then
                    (Continue,
                     st\<lparr> pinnedMessages :=
                           pinnedMessages st @ [OutlierNotice documentID count idx],
                         loggedOutliers := (loggedOutliers st)(documentID := True) \<rparr>)
                  else if \<not> errored partition then
                    let newValue = current partition + count
                    in if max_p partition <s newValue then
                         let st' = st\<lparr> partitionList :=
                                          (partitionList st)[i := partition\<lparr> errored := True \<rparr>],
                                        erroredPartitions := erroredPartitions st + 1 \<rparr>
                         in (if erroredPartitions st' = partitions config then Break
                             else Continue,
                             st')
                       else
                         let st' = st\<lparr> partitionList :=
                                          (partitionList st)[i := partition\<lparr> current := newValue \<rparr>] \<rparr>
                         in if length (partitionCounts (result st')) \<le> i then (Panic, st')
                            else
                              (Continue,
                               st'\<lparr> result := (result st')\<lparr> partitionCounts :=
                                       (partitionCounts (result st'))[i := newValue] \<rparr> \<rparr>)
                  else (Continue, st))"

definition processRecord :: "Config \<Rightarrow> string list \<Rightarrow> RunState \<Rightarrow> flow \<times> RunState" where
  "processRecord config record st =
     (case parseRecord record of
        IndexPanic \<Rightarrow> (Panic, st)
      | Skipped \<Rightarrow> (Continue, st)
      | Parsed documentID count \<Rightarrow> routeRecord config documentID count (countRecord count st))"

text \<open>
  Lines 157-221: the record loop of one scan. The end of the file ends the loop, and so
  does \<open>break\<close>; both let the iterations go on.
\<close>

fun scanRecords :: "Config \<Rightarrow> string list option list \<Rightarrow> RunState \<Rightarrow> flow \<times> RunState" where
  "scanRecords config [] st = (Continue, st)"
| "scanRecords config (None # rest) st = (Return (WrapErr ''error reading CSV''), st)"
| "scanRecords config (Some record # rest) st =
     (if \<not> seekCurrent (file_c config) then (Return (WrapErr ''error getting file position''), st)
      else
        (case processRecord config record st of
           (Continue, st') \<Rightarrow> scanRecords config rest st'
         | (Break, st') \<Rightarrow> (Continue, st')
         | (fl, st') \<Rightarrow> (fl, st')))"

text \<open>Lines 139-221: one iteration, from the two calls of \<open>Seek\<close> to the end of the scan.\<close>

definition scanFile :: "Config \<Rightarrow> RunState \<Rightarrow> flow \<times> RunState" where
  "scanFile config st =
     (if \<not> seekCurrent (file_c config) then (Return (WrapErr ''error getting file position''), st)
      else if \<not> seekStart (file_c config) then
        (Return (WrapErr ''error resetting file position''), st)
      else
        (case header (file_c config) of
           None \<Rightarrow> (Return (WrapErr ''error reading CSV header''), st)
         | Some h \<Rightarrow> scanRecords config (rows (file_c config)) st))"

text \<open>
  Line 138: \<open>for iteration := 1; iteration <= config.iterations; iteration++\<close>. The
  counter is a Go \<open>int\<close> and wraps, so with \<open>config.iterations\<close> at the largest
  \<open>int\<close> the condition never fails: the loop is a partial function.
\<close>

partial_function (option) iterate :: "Config \<Rightarrow> goint \<Rightarrow> RunState \<Rightarrow> (flow \<times> RunState) option" where
  "iterate config iteration st =
     (if iteration \<le>s iterations config then
        (let r = scanFile config st
         in if fst r = Continue then iterate config (iteration + 1) (snd r) else Some r)
      else Some (Continue, st))"

text \<open>\<open>fmt.Sprintf("%d", n)\<close> for a Go \<open>int\<close>.\<close>

fun showNat :: "nat \<Rightarrow> string" where
  "showNat n =
     (if n < 10 then [''0123456789'' ! n]
      else showNat (n div 10) @ [''0123456789'' ! (n mod 10)])"

definition showInt :: "goint \<Rightarrow> string" where
  "showInt n = (if n <s 0 then CHR ''-'' # showNat (nat (- sint n)) else showNat (nat (sint n)))"

text \<open>Lines 224-244: the last call of \<open>Seek\<close> and the classification of the run.\<close>

definition classify :: "Config \<Rightarrow> RunState \<Rightarrow> goerror option" where
  "classify config st =
     (if erroredPartitions st = partitions config then
        Some (NewErr ''all partitions have exceeded their maximum value'')
      else if erroredPartitions st = 1 then
        Some (NewErr (showInt (erroredPartitions st) @ '' partition exceeded its maximum value''))
      else if 0 <s erroredPartitions st then
        Some (NewErr (showInt (erroredPartitions st) @ '' partitions exceeded their maximum value''))
      else None)"

definition finish :: "Config \<Rightarrow> RunState \<Rightarrow> outcome" where
  "finish config st =
     (if \<not> seekCurrent (file_c config) then
        Returned (result st) (Some (WrapErr ''error getting file position''))
      else Returned (result st) (classify config st))"

text \<open>
  The states the loops end in, and \<open>ProcessCSV\<close> itself. \<open>make\<close> panics on a negative
  length. \<open>None\<close> is a run that does not return.
\<close>

definition run :: "Config \<Rightarrow> (flow \<times> RunState) option" where
  "run config = iterate config 1 (initState config)"

definition ProcessCSV :: "Config \<Rightarrow> outcome option" where
  "ProcessCSV config =
     (if partitions config <s 0 then Some Panics
      else
        (case run config of
           None \<Rightarrow> None
         | Some (Continue, st) \<Rightarrow> Some (finish config st)
         | Some (Return err, st) \<Rightarrow> Some (Returned (result st) (Some err))
         | Some (fl, st) \<Rightarrow> Some Panics))"

section \<open>Points of a run\<close>

text \<open>
  \<open>reaches config st st'\<close>: a run that is in state \<open>st\<close> can be in state \<open>st'\<close> later,
  after processing further records (of this or a later iteration) without a panic.
\<close>

inductive reaches :: "Config \<Rightarrow> RunState \<Rightarrow> RunState \<Rightarrow> bool"
  for config :: Config and st :: RunState where
  reaches_refl: "reaches config st st"
| reaches_step:
    "reaches config st st1 \<Longrightarrow> processRecord config record st1 = (fl, st2) \<Longrightarrow> fl \<noteq> Panic
       \<Longrightarrow> reaches config st st2"

section \<open>The ledger of section 8 of the specification\<close>

text \<open>
  The two sums of the accounting equation, in the words of the specification and apart
  from the code: for a record, the weight that is filtered as an outlier and the weight
  that is dropped, that is, that belongs to a parsed record which is not filtered and
  whose weight does not enter the \<open>current\<close> value of its partition (the partition is
  errored already, or the record is the one that overflows it). A record that fails to
  parse has no weight in either sum.
\<close>

definition recordLedger :: "Config \<Rightarrow> string list \<Rightarrow> RunState \<Rightarrow> int64 \<times> int64" where
  "recordLedger config record st =
     (case parseRecord record of
        Parsed documentID count \<Rightarrow>
          (case partitionIndex (partitions config) documentID of
             None \<Rightarrow> (0, 0)
           | Some idx \<Rightarrow>
               if length (partitionList st) \<le> unat idx then (0, 0)
               else if outlier config <s count \<and> \<not> loggedOutliers st documentID then (count, 0)
               else if errored (partitionList st ! unat idx) then (0, count)
               else if max_p (partitionList st ! unat idx)
                         <s current (partitionList st ! unat idx) + count then (0, count)
               else (0, 0))
      | other \<Rightarrow> (0, 0))"

fun scanLedger :: "Config \<Rightarrow> string list option list \<Rightarrow> RunState \<Rightarrow> int64 \<times> int64" where
  "scanLedger config [] st = (0, 0)"
| "scanLedger config (None # rest) st = (0, 0)"
| "scanLedger config (Some record # rest) st =
     (if \<not> seekCurrent (file_c config) then (0, 0)
      else
        let here = recordLedger config record st;
            r = processRecord config record st
        in if fst r = Continue then
             (fst here + fst (scanLedger config rest (snd r)),
              snd here + snd (scanLedger config rest (snd r)))
           else here)"

text \<open>The ledger of a run of one iteration: that of the records its scan consumes.\<close>

definition runLedger :: "Config \<Rightarrow> int64 \<times> int64" where
  "runLedger config =
     (if seekCurrent (file_c config) \<and> seekStart (file_c config)
         \<and> header (file_c config) \<noteq> None
      then scanLedger config (rows (file_c config)) (initState config)
      else (0, 0))"

section \<open>Decimal text\<close>

text \<open>A non-empty string of decimal digits, and the number it writes.\<close>

definition isDecimal :: "string \<Rightarrow> bool" where
  "isDecimal ds = (ds \<noteq> [] \<and> list_all isDigit ds)"

definition decimalValue :: "string \<Rightarrow> nat" where
  "decimalValue ds = foldl (\<lambda>n c. n * 10 + digitVal c) 0 ds"

section \<open>Example inputs\<close>

text \<open>
  A seekable file with the header of the test suite (\<open>createTestCSV\<close>) and the given
  rows, and a configuration of one iteration over it.
\<close>

definition exampleFile :: "string list list \<Rightarrow> csvFile" where
  "exampleFile rs =
     \<lparr> seekCurrent = True, seekStart = True,
       header = Some [''DocumentID'', ''count''], rows = map Some rs \<rparr>"

definition exampleConfig :: "goint \<Rightarrow> int64 \<Rightarrow> int64 \<Rightarrow> int64 \<Rightarrow> string list list \<Rightarrow> Config" where
  "exampleConfig n lo hi out rs =
     \<lparr> partitions = n, max_c = hi, min_c = lo, file_c = exampleFile rs,
       iterations = 1, outlier = out \<rparr>"

section \<open>Properties of the hash\<close>

lemma bit_shift_or:
  fixes x :: uint32
  assumes "n < 32"
  shows "bit (push_bit m x OR drop_bit (32 - m) x) n
           \<longleftrightarrow> (m \<le> n \<and> bit x (n - m)) \<or> bit x (32 - m + n)"
  using assms by (simp add: bit_or_iff bit_push_bit_iff bit_drop_bit_eq)

lemma bit_rotl_32:
  fixes x :: uint32
  assumes "n < 32"
  shows "bit (word_rotl m x) n \<longleftrightarrow> bit x ((n + (32 - m mod 32)) mod 32)"
  using assms by (simp add: bit_word_rotl_iff)

lemma bit_beyond_32:
  fixes x :: uint32
  assumes "32 \<le> j"
  shows "\<not> bit x j"
  using assms bit_imp_le_length [of x j] by auto

lemma rotl_index_low:
  fixes m n :: nat
  assumes "m \<le> n" and "n < 32"
  shows "(n + (32 - m mod 32)) mod 32 = n - m"
  using assms by (simp add: mod_if)

lemma rotl_index_high:
  fixes m n :: nat
  assumes "\<not> m \<le> n" and "m \<le> 32" and "n < 32"
  shows "(n + (32 - m mod 32)) mod 32 = 32 - m + n"
  using assms by (auto simp add: mod_if)

lemma shift_or_is_rotation:
  fixes x :: uint32
  assumes "m \<le> 32"
  shows "push_bit m x OR drop_bit (32 - m) x = word_rotl m x"
proof (rule bit_word_eqI)
  fix n
  assume "n < LENGTH(32)"
  then have n: "n < 32" by simp
  show "bit (push_bit m x OR drop_bit (32 - m) x) n = bit (word_rotl m x) n"
  proof (cases "m \<le> n")
    case True
    then have "\<not> bit x (32 - m + n)"
      using assms by (intro bit_beyond_32) simp
    then show ?thesis
      using True n by (simp only: bit_shift_or bit_rotl_32 rotl_index_low) simp
  next
    case False
    then show ?thesis
      using False assms n by (simp only: bit_shift_or bit_rotl_32 rotl_index_high) simp
  qed
qed

lemma rotateLeft_is_rotl:
  assumes "k \<le> 32"
  shows "rotateLeft x k = rotl x (unat k)"
proof -
  have le: "unat k \<le> 32"
    using assms by (simp add: word_le_nat_alt)
  have "unat (32 - k) = 32 - unat k"
    using assms by (simp add: unat_sub)
  then show ?thesis
    unfolding rotateLeft_def rotl_def using le by (simp add: shift_or_is_rotation)
qed

text \<open>
  C1. For every 32-bit key the code's \<open>hash\<close> returns the value the specification
  describes: the three words start at the seed, the key is added to \<open>a\<close>, the seven
  mixing steps with rotations by 14, 11, 25, 16, 4, 14 and 24 follow, and \<open>c\<close> is
  returned, all in wrapping 32-bit arithmetic with \<open>rotl\<close> the circular rotation.
\<close>

theorem hash_refines_spec: "hash k = hash_spec k"
  by (simp add: hash_def hash_spec_def mix_a_def mix_b_def mix_c_def seed_def
      golden_ratio_constant_def fixed_length_constant_def fixed_salt_constant_def
      rotateLeft_is_rotl Let_def)

text \<open>
  The value at key 1 is the one PostgreSQL's \<open>hash_bytes_uint32\<close> gives, \<open>-1905060026\<close>
  as a signed number (the table of the disabled test \<open>TestHash\<close>).
\<close>

theorem hash_refines_spec_witness:
  "hash 1 = hash_spec 1 \<and> hash_spec 1 = 2389907270 \<and> sint (hash 1) = - 1905060026"
proof -
  have "hash 1 = 2389907270"
    by code_simp
  then show ?thesis
    using hash_refines_spec [of 1] by simp
qed


section \<open>Unfolding the loops\<close>

text \<open>The iteration loop, one step at a time.\<close>

lemma iterate_done:
  assumes "\<not> iteration \<le>s iterations config"
  shows "iterate config iteration st = Some (Continue, st)"
  using assms by (subst iterate.simps) simp

lemma iterate_next:
  assumes "iteration \<le>s iterations config" and "scanFile config st = (Continue, st')"
  shows "iterate config iteration st = iterate config (iteration + 1) st'"
  using assms by (subst iterate.simps) simp

lemma iterate_stop:
  assumes "iteration \<le>s iterations config" and "scanFile config st = (fl, st')"
    and "fl \<noteq> Continue"
  shows "iterate config iteration st = Some (fl, st')"
  using assms by (subst iterate.simps) simp


text \<open>The five ways through lines 193-220.\<close>

lemma routeRecord_cases [consumes 1, case_names panic outlier overflow admit dropped]:
  assumes r: "routeRecord config documentID count st = (fl, st')"
  obtains
    (panic) "fl = Panic"
  | (outlier) idx where
      "partitionIndex (partitions config) documentID = Some idx"
      "unat idx < length (partitionList st)"
      "outlier config <s count" "\<not> loggedOutliers st documentID"
      "fl = Continue"
      "st' = st\<lparr> pinnedMessages := pinnedMessages st @ [OutlierNotice documentID count idx],
                  loggedOutliers := (loggedOutliers st)(documentID := True) \<rparr>"
  | (overflow) idx where
      "partitionIndex (partitions config) documentID = Some idx"
      "unat idx < length (partitionList st)"
      "\<not> (outlier config <s count \<and> \<not> loggedOutliers st documentID)"
      "\<not> errored (partitionList st ! unat idx)"
      "max_p (partitionList st ! unat idx) <s current (partitionList st ! unat idx) + count"
      "fl = (if erroredPartitions st + 1 = partitions config then Break else Continue)"
      "st' = st\<lparr> partitionList :=
                    (partitionList st)[unat idx := (partitionList st ! unat idx)\<lparr> errored := True \<rparr>],
                  erroredPartitions := erroredPartitions st + 1 \<rparr>"
  | (admit) idx where
      "partitionIndex (partitions config) documentID = Some idx"
      "unat idx < length (partitionList st)"
      "unat idx < length (partitionCounts (result st))"
      "\<not> (outlier config <s count \<and> \<not> loggedOutliers st documentID)"
      "\<not> errored (partitionList st ! unat idx)"
      "\<not> max_p (partitionList st ! unat idx) <s current (partitionList st ! unat idx) + count"
      "fl = Continue"
      "st' = st\<lparr> partitionList :=
                    (partitionList st)[unat idx := (partitionList st ! unat idx)
                       \<lparr> current := current (partitionList st ! unat idx) + count \<rparr>],
                  result := (result st)\<lparr> partitionCounts :=
                    (partitionCounts (result st))
                      [unat idx := current (partitionList st ! unat idx) + count] \<rparr> \<rparr>"
  | (dropped) idx where
      "partitionIndex (partitions config) documentID = Some idx"
      "unat idx < length (partitionList st)"
      "\<not> (outlier config <s count \<and> \<not> loggedOutliers st documentID)"
      "errored (partitionList st ! unat idx)"
      "fl = Continue" "st' = st"
  using r unfolding routeRecord_def Let_def
  by (auto split: option.splits if_splits)


lemma processRecord_cases [consumes 1, case_names index_panic skipped parsed]:
  assumes "processRecord config record st = (fl, st')"
  obtains
    (index_panic) "parseRecord record = IndexPanic" "fl = Panic" "st' = st"
  | (skipped) "parseRecord record = Skipped" "fl = Continue" "st' = st"
  | (parsed) documentID count where
      "parseRecord record = Parsed documentID count"
      "routeRecord config documentID count (countRecord count st) = (fl, st')"
  using assms unfolding processRecord_def by (cases "parseRecord record") auto

lemma countRecord_simps [simp]:
  "partitionList (countRecord c st) = partitionList st"
  "partitionCounts (result (countRecord c st)) = partitionCounts (result st)"
  "erroredPartitions (countRecord c st) = erroredPartitions st"
  "pinnedMessages (countRecord c st) = pinnedMessages st"
  "loggedOutliers (countRecord c st) = loggedOutliers st"
  "totalDocuments (result (countRecord c st)) = totalDocuments (result st) + 1"
  "totalIDs (result (countRecord c st)) = totalIDs (result st) + c"
  by (simp_all add: countRecord_def)

section \<open>Later points of a run\<close>

text \<open>
  A property of the state that counting a record keeps and routing it preserves holds at
  every later point.
\<close>

lemma reaches_invariant:
  assumes r: "reaches config st st'"
    and start: "I st"
    and count: "\<And>c s. I s \<Longrightarrow> I (countRecord c s)"
    and route: "\<And>d c s fl s'. I s \<Longrightarrow> routeRecord config d c s = (fl, s') \<Longrightarrow> fl \<noteq> Panic \<Longrightarrow> I s'"
  shows "I st'"
  using r
proof (induction rule: reaches.induct)
  case reaches_refl
  show ?case by (rule start)
next
  case (reaches_step st1 rcd fl st2)
  from reaches_step.hyps(2) show ?case
  proof (cases rule: processRecord_cases)
    case index_panic
    with reaches_step show ?thesis by simp
  next
    case skipped
    with reaches_step show ?thesis by simp
  next
    case (parsed documentID count)
    show ?thesis
      using route [OF count [OF reaches_step.IH] parsed(2) reaches_step.hyps(3)] .
  qed
qed

text \<open>The states in which the loops end are later points of the state they start in.\<close>

lemma reaches_trans:
  assumes "reaches config st1 st2" and "reaches config st st1"
  shows "reaches config st st2"
  using assms by (induction rule: reaches.induct) (auto intro: reaches.intros)

lemma scanRecords_reaches:
  assumes "scanRecords config rs st = (fl, st')" and "fl \<noteq> Panic"
  shows "reaches config st st'"
  using assms
proof (induction rs arbitrary: st)
  case Nil
  then show ?case by (auto intro: reaches_refl)
next
  case (Cons r rs)
  show ?case
  proof (cases r)
    case None
    with Cons.prems show ?thesis by (auto intro: reaches_refl)
  next
    case (Some rcd)
    show ?thesis
    proof (cases "seekCurrent (file_c config)")
      case False
      with Some Cons.prems show ?thesis by (auto intro: reaches_refl)
    next
      case True
      obtain f1 st1 where p: "processRecord config rcd st = (f1, st1)"
        by (cases "processRecord config rcd st")
      show ?thesis
      proof (cases f1)
        case Continue
        then have "scanRecords config rs st1 = (fl, st')"
          using Cons.prems(1) Some True p by simp
        then have "reaches config st1 st'"
          using Cons.IH Cons.prems(2) by blast
        moreover have "reaches config st st1"
          using p Continue by (auto intro: reaches.intros)
        ultimately show ?thesis by (rule reaches_trans)
      next
        case Break
        then have "st' = st1" using Cons.prems(1) Some True p by simp
        then show ?thesis using p Break by (auto intro: reaches.intros)
      next
        case Panic
        then show ?thesis using Cons.prems Some True p by simp
      next
        case (Return e)
        then have "st' = st1" using Cons.prems(1) Some True p by simp
        then show ?thesis using p Return by (auto intro: reaches.intros)
      qed
    qed
  qed
qed

lemma scanFile_reaches:
  assumes "scanFile config st = (fl, st')" and "fl \<noteq> Panic"
  shows "reaches config st st'"
  using assms unfolding scanFile_def
  by (auto split: if_splits option.splits intro: reaches_refl scanRecords_reaches)

lemma iterate_reaches:
  assumes "iterate config iteration st = Some (fl, st')" and "fl \<noteq> Panic"
  shows "reaches config st st'"
proof -
  have "fst y \<noteq> Panic \<longrightarrow> reaches config st (snd y)"
    if "iterate config iteration st = Some y" for y
  proof (rule iterate.raw_induct
      [where P = "\<lambda>config iteration st y. fst y \<noteq> Panic \<longrightarrow> reaches config st (snd y)",
        OF _ that], goal_cases)
    case (1 f config iteration st y)
    show ?case
    proof (cases "iteration \<le>s iterations config")
      case False
      with 1(2) show ?thesis by (auto intro: reaches_refl)
    next
      case True
      obtain f1 st1 where s: "scanFile config st = (f1, st1)"
        by (cases "scanFile config st")
      show ?thesis
      proof (cases "f1 = Continue")
        case True
        then have a: "f config (iteration + 1) st1 = Some y"
          using 1(2) \<open>iteration \<le>s iterations config\<close> s by simp
        have "fst y \<noteq> Panic \<longrightarrow> reaches config st1 (snd y)"
          using a by (rule 1(1))
        moreover have "reaches config st st1"
          using s True by (intro scanFile_reaches [OF s]) simp
        ultimately show ?thesis by (auto intro: reaches_trans)
      next
        case False
        then have "y = (f1, st1)"
          using 1(2) \<open>iteration \<le>s iterations config\<close> s by simp
        then show ?thesis using s by (auto intro: scanFile_reaches)
      qed
    qed
  qed
  from this [OF assms(1)] assms(2) show ?thesis by simp
qed

lemma run_reaches:
  assumes "run config = Some (fl, st)" and "fl \<noteq> Panic"
  shows "reaches config (initState config) st"
  using assms unfolding run_def by (rule iterate_reaches)


section \<open>What routing a record changes\<close>

lemma routeRecord_length:
  assumes "routeRecord config d c s = (fl, s')" and "fl \<noteq> Panic"
  shows "length (partitionList s') = length (partitionList s)"
    and "length (partitionCounts (result s')) = length (partitionCounts (result s))"
  using assms by (cases rule: routeRecord_cases; simp)+

lemma routeRecord_totals:
  assumes "routeRecord config d c s = (fl, s')"
  shows "totalDocuments (result s') = totalDocuments (result s)
         \<and> totalIDs (result s') = totalIDs (result s)"
  using assms unfolding routeRecord_def Let_def
  by (auto split: option.splits if_splits)

lemma routeRecord_errored_kept:
  assumes "routeRecord config d c s = (fl, s')" and "fl \<noteq> Panic"
    and "i < length (partitionList s)" and "errored (partitionList s ! i)"
  shows "partitionList s' ! i = partitionList s ! i"
  using assms by (cases rule: routeRecord_cases) (auto simp: nth_list_update)

lemma routeRecord_capacity:
  assumes "routeRecord config d c s = (fl, s')" and "fl \<noteq> Panic"
    and "\<forall>i < length (partitionList s). max_p (partitionList s ! i) = cap
           \<and> (\<not> errored (partitionList s ! i) \<longrightarrow> current (partitionList s ! i) \<le>s cap)"
  shows "\<forall>i < length (partitionList s'). max_p (partitionList s' ! i) = cap
           \<and> (\<not> errored (partitionList s' ! i) \<longrightarrow> current (partitionList s' ! i) \<le>s cap)"
  using assms by (cases rule: routeRecord_cases) (auto simp: nth_list_update)

lemma routeRecord_counts:
  assumes "routeRecord config d c s = (fl, s')" and "fl \<noteq> Panic"
    and "length (partitionCounts (result s)) = length (partitionList s)"
    and "\<forall>i < length (partitionList s).
           partitionCounts (result s) ! i = current (partitionList s ! i)
           \<or> (partitionCounts (result s) ! i = 0 \<and> current (partitionList s ! i) = m)"
  shows "\<forall>i < length (partitionList s').
           partitionCounts (result s') ! i = current (partitionList s' ! i)
           \<or> (partitionCounts (result s') ! i = 0 \<and> current (partitionList s' ! i) = m)"
  using assms by (cases rule: routeRecord_cases) (auto simp: nth_list_update)

lemma filter_errored_set:
  assumes "i < length ps" and "\<not> errored (ps ! i)"
  shows "length (filter errored (ps[i := (ps ! i)\<lparr> errored := True \<rparr>]))
           = Suc (length (filter errored ps))"
  using assms
proof (induction ps arbitrary: i)
  case Nil
  then show ?case by simp
next
  case (Cons p ps)
  then show ?case by (cases i) auto
qed

lemma filter_errored_current:
  assumes "i < length ps"
  shows "length (filter errored (ps[i := (ps ! i)\<lparr> current := v \<rparr>]))
           = length (filter errored ps)"
  using assms
proof (induction ps arbitrary: i)
  case Nil
  then show ?case by simp
next
  case (Cons p ps)
  then show ?case by (cases i) auto
qed

lemma routeRecord_erroredPartitions:
  assumes "routeRecord config d c s = (fl, s')" and "fl \<noteq> Panic"
    and "erroredPartitions s = word_of_nat (length (filter errored (partitionList s)))"
  shows "erroredPartitions s' = word_of_nat (length (filter errored (partitionList s')))"
  using assms
  by (cases rule: routeRecord_cases) (auto simp: filter_errored_set filter_errored_current)

section \<open>Invariants at every point of a run\<close>

lemma reaches_shape:
  assumes "reaches config st st'"
  shows "length (partitionList st') = length (partitionList st)
         \<and> length (partitionCounts (result st')) = length (partitionCounts (result st))"
  by (rule reaches_invariant [OF assms,
        where I = "\<lambda>s. length (partitionList s) = length (partitionList st)
                      \<and> length (partitionCounts (result s)) = length (partitionCounts (result st))"])
     (auto dest: routeRecord_length)

lemma reaches_errored_kept:
  assumes "reaches config st st'"
  shows "length (partitionList st') = length (partitionList st)
         \<and> (\<forall>i < length (partitionList st). errored (partitionList st ! i)
               \<longrightarrow> partitionList st' ! i = partitionList st ! i)"
  by (rule reaches_invariant [OF assms,
        where I = "\<lambda>s. length (partitionList s) = length (partitionList st)
         \<and> (\<forall>i < length (partitionList st). errored (partitionList st ! i)
               \<longrightarrow> partitionList s ! i = partitionList st ! i)"])
     (auto dest: routeRecord_length simp: routeRecord_errored_kept)

lemma reaches_capacity:
  assumes "reaches config st st'"
    and "\<forall>i < length (partitionList st). max_p (partitionList st ! i) = cap
           \<and> (\<not> errored (partitionList st ! i) \<longrightarrow> current (partitionList st ! i) \<le>s cap)"
  shows "\<forall>i < length (partitionList st'). max_p (partitionList st' ! i) = cap
           \<and> (\<not> errored (partitionList st' ! i) \<longrightarrow> current (partitionList st' ! i) \<le>s cap)"
proof (rule reaches_invariant [OF assms(1),
        where I = "\<lambda>s. \<forall>i < length (partitionList s). max_p (partitionList s ! i) = cap
           \<and> (\<not> errored (partitionList s ! i) \<longrightarrow> current (partitionList s ! i) \<le>s cap)"],
       goal_cases)
  case 1
  show ?case by (rule assms(2))
next
  case (2 c s)
  then show ?case by simp
next
  case (3 d c s fl s')
  show ?case by (rule routeRecord_capacity [OF 3(2) 3(3) 3(1)])
qed

lemma reaches_counts:
  assumes "reaches config st st'"
    and "length (partitionCounts (result st)) = length (partitionList st)"
    and "\<forall>i < length (partitionList st).
           partitionCounts (result st) ! i = current (partitionList st ! i)
           \<or> (partitionCounts (result st) ! i = 0 \<and> current (partitionList st ! i) = m)"
  shows "length (partitionCounts (result st')) = length (partitionList st')
       \<and> (\<forall>i < length (partitionList st').
           partitionCounts (result st') ! i = current (partitionList st' ! i)
           \<or> (partitionCounts (result st') ! i = 0 \<and> current (partitionList st' ! i) = m))"
proof (rule reaches_invariant [OF assms(1),
        where I = "\<lambda>s. length (partitionCounts (result s)) = length (partitionList s)
       \<and> (\<forall>i < length (partitionList s).
           partitionCounts (result s) ! i = current (partitionList s ! i)
           \<or> (partitionCounts (result s) ! i = 0 \<and> current (partitionList s ! i) = m))"],
       goal_cases)
  case 1
  show ?case using assms(2,3) by simp
next
  case (2 c s)
  then show ?case by simp
next
  case (3 d c s fl s')
  have "length (partitionCounts (result s')) = length (partitionList s')"
    using routeRecord_length [OF 3(2) 3(3)] 3(1) by simp
  moreover have "\<forall>i < length (partitionList s').
           partitionCounts (result s') ! i = current (partitionList s' ! i)
           \<or> (partitionCounts (result s') ! i = 0 \<and> current (partitionList s' ! i) = m)"
    using 3(1) by (intro routeRecord_counts [OF 3(2) 3(3)]) simp_all
  ultimately show ?case by simp
qed

lemma reaches_erroredPartitions:
  assumes "reaches config st st'"
    and "erroredPartitions st = word_of_nat (length (filter errored (partitionList st)))"
  shows "erroredPartitions st' = word_of_nat (length (filter errored (partitionList st')))"
  by (rule reaches_invariant [OF assms(1),
        where I = "\<lambda>s. erroredPartitions s = word_of_nat (length (filter errored (partitionList s)))"])
     (auto simp: assms(2) routeRecord_erroredPartitions)

lemma initState_simps [simp]:
  "partitionList (initState config) =
     replicate (nat (sint (partitions config)))
       \<lparr> current = min_c config, max_p = max_c config, errored = False \<rparr>"
  "partitionCounts (result (initState config)) = replicate (nat (sint (partitions config))) 0"
  "totalDocuments (result (initState config)) = 0"
  "totalIDs (result (initState config)) = 0"
  "erroredPartitions (initState config) = 0"
  "pinnedMessages (initState config) = []"
  "loggedOutliers (initState config) = (\<lambda>_. False)"
  by (simp_all add: initState_def Let_def)


lemmas parse_defs = ParseInt_def ParseUint_def isDigit_def digitVal_def cutoff10_def Let_def

lemma exampleConfig_simps [simp]:
  "partitions (exampleConfig n lo hi out rs) = n"
  "max_c (exampleConfig n lo hi out rs) = hi"
  "min_c (exampleConfig n lo hi out rs) = lo"
  "iterations (exampleConfig n lo hi out rs) = 1"
  "outlier (exampleConfig n lo hi out rs) = out"
  "seekCurrent (file_c (exampleConfig n lo hi out rs))"
  "seekStart (file_c (exampleConfig n lo hi out rs))"
  "header (file_c (exampleConfig n lo hi out rs)) = Some [''DocumentID'', ''count'']"
  "rows (file_c (exampleConfig n lo hi out rs)) = map Some rs"
  by (simp_all add: exampleConfig_def exampleFile_def)

lemma parse_examples:
  "parseRecord [''1'', ''5''] = Parsed 1 5"
  "parseRecord [''1'', ''11''] = Parsed 1 11"
  "parseRecord [''2'', ''3''] = Parsed 2 3"
  "parseRecord [''x'', ''5''] = Skipped"
  "parseRecord [''1'', ''y''] = Skipped"
  by (simp_all add: parseRecord_def parse_defs)

lemma partitionIndex_one [simp]: "partitionIndex 1 d = Some 0"
  by (simp add: partitionIndex_def)

section \<open>Claims about single records\<close>

text \<open>
  C4. A record whose key or weight does not parse is skipped: the state, and with it
  \<open>totalDocuments\<close> and \<open>totalIDs\<close>, is unchanged and the scan goes on with the next
  record. A record whose two fields parse adds one to \<open>totalDocuments\<close> and its weight to
  \<open>totalIDs\<close>, whatever happens to it afterwards (outlier, errored partition, overflow).
\<close>

theorem parse_failure_skips_success_counts:
  "((\<exists>e. ParseInt k 32 = Inl e) \<or> (\<exists>e. ParseInt w 64 = Inl e)
      \<longrightarrow> processRecord config (k # w # others) st = (Continue, st))
   \<and> (\<forall>i count. ParseInt k 32 = Inr i \<and> ParseInt w 64 = Inr count
      \<longrightarrow> totalDocuments (result (snd (processRecord config (k # w # others) st)))
            = totalDocuments (result st) + 1
        \<and> totalIDs (result (snd (processRecord config (k # w # others) st)))
            = totalIDs (result st) + count)"
proof (intro conjI impI allI)
  assume "(\<exists>e. ParseInt k 32 = Inl e) \<or> (\<exists>e. ParseInt w 64 = Inl e)"
  then have "parseRecord (k # w # others) = Skipped"
    by (auto simp: parseRecord_def split: sum.splits)
  then show "processRecord config (k # w # others) st = (Continue, st)"
    by (simp add: processRecord_def)
next
  fix i count
  assume ok: "ParseInt k 32 = Inr i \<and> ParseInt w 64 = Inr count"
  then have p: "processRecord config (k # w # others) st
                  = routeRecord config (ucast i) count (countRecord count st)"
    by (simp add: processRecord_def parseRecord_def)
  obtain fl st' where r: "routeRecord config (ucast i) count (countRecord count st) = (fl, st')"
    by (cases "routeRecord config (ucast i) count (countRecord count st)")
  from routeRecord_totals [OF r] p r
  show "totalDocuments (result (snd (processRecord config (k # w # others) st)))
            = totalDocuments (result st) + 1"
    and "totalIDs (result (snd (processRecord config (k # w # others) st)))
            = totalIDs (result st) + count"
    by simp_all
qed

theorem parse_failure_skips_success_counts_witness:
  "processRecord (exampleConfig 1 0 10 100 []) [''x'', ''5''] (initState (exampleConfig 1 0 10 100 []))
     = (Continue, initState (exampleConfig 1 0 10 100 []))
   \<and> processRecord (exampleConfig 1 0 10 100 []) [''1'', ''y''] (initState (exampleConfig 1 0 10 100 []))
     = (Continue, initState (exampleConfig 1 0 10 100 []))
   \<and> ParseInt ''1'' 32 = Inr 1 \<and> ParseInt ''11'' 64 = Inr 11
   \<and> totalDocuments (result (snd (processRecord (exampleConfig 1 0 10 100 []) [''1'', ''11'']
         (initState (exampleConfig 1 0 10 100 []))))) = 1
   \<and> totalIDs (result (snd (processRecord (exampleConfig 1 0 10 100 []) [''1'', ''11'']
         (initState (exampleConfig 1 0 10 100 []))))) = 11"
proof -
  have a: "\<exists>e. ParseInt ''x'' 32 = Inl e" by (simp add: parse_defs)
  have b: "\<exists>e. ParseInt ''y'' 64 = Inl e" by (simp add: parse_defs)
  have c: "ParseInt ''1'' 32 = Inr 1" by (simp add: parse_defs)
  have d: "ParseInt ''11'' 64 = Inr 11" by (simp add: parse_defs)
  show ?thesis
    using a b c d
      parse_failure_skips_success_counts [of "''x''" "''5''" "exampleConfig 1 0 10 100 []" "[]"
        "initState (exampleConfig 1 0 10 100 [])"]
      parse_failure_skips_success_counts [of "''1''" "''y''" "exampleConfig 1 0 10 100 []" "[]"
        "initState (exampleConfig 1 0 10 100 [])"]
      parse_failure_skips_success_counts [of "''1''" "''11''" "exampleConfig 1 0 10 100 []" "[]"
        "initState (exampleConfig 1 0 10 100 [])"]
    by simp
qed


section \<open>Example steps\<close>

lemma example_overflow:
  "processRecord (exampleConfig 1 0 10 100 rs) [''1'', ''11'']
       (initState (exampleConfig 1 0 10 100 rs))
     = (Break,
        \<lparr> partitionList = [\<lparr> current = 0, max_p = 10, errored = True \<rparr>],
          result = \<lparr> totalDocuments = 1, totalIDs = 11, partitionCounts = [0] \<rparr>,
          erroredPartitions = 1, pinnedMessages = [], loggedOutliers = (\<lambda>_. False) \<rparr>)"
  by (simp add: processRecord_def parse_examples routeRecord_def countRecord_def
      initState_def Let_def)

lemma example_dropped:
  "processRecord (exampleConfig 1 0 10 100 rs) [''2'', ''3'']
        \<lparr> partitionList = [\<lparr> current = 0, max_p = 10, errored = True \<rparr>],
          result = \<lparr> totalDocuments = 1, totalIDs = 11, partitionCounts = [0] \<rparr>,
          erroredPartitions = 1, pinnedMessages = [], loggedOutliers = (\<lambda>_. False) \<rparr>
     = (Continue,
        \<lparr> partitionList = [\<lparr> current = 0, max_p = 10, errored = True \<rparr>],
          result = \<lparr> totalDocuments = 2, totalIDs = 14, partitionCounts = [0] \<rparr>,
          erroredPartitions = 1, pinnedMessages = [], loggedOutliers = (\<lambda>_. False) \<rparr>)"
  by (simp add: processRecord_def parse_examples routeRecord_def countRecord_def Let_def)

lemma example_admit:
  "processRecord (exampleConfig 1 lo 10 100 rs) [''1'', ''5'']
       (initState (exampleConfig 1 lo 10 100 rs))
     = (if 10 <s lo + 5
        then (Break,
          \<lparr> partitionList = [\<lparr> current = lo, max_p = 10, errored = True \<rparr>],
            result = \<lparr> totalDocuments = 1, totalIDs = 5, partitionCounts = [0] \<rparr>,
            erroredPartitions = 1, pinnedMessages = [], loggedOutliers = (\<lambda>_. False) \<rparr>)
        else (Continue,
          \<lparr> partitionList = [\<lparr> current = lo + 5, max_p = 10, errored = False \<rparr>],
            result = \<lparr> totalDocuments = 1, totalIDs = 5, partitionCounts = [lo + 5] \<rparr>,
            erroredPartitions = 0, pinnedMessages = [], loggedOutliers = (\<lambda>_. False) \<rparr>))"
  by (simp add: processRecord_def parse_examples routeRecord_def countRecord_def
      initState_def Let_def)

section \<open>Words\<close>

lemma sint_nonneg_uint:
  fixes w :: "64 word"
  assumes "0 \<le> sint w"
  shows "uint w = sint w"
proof -
  have "sint w < 2 ^ 64"
    using sint_lt [of w] by simp
  then show ?thesis
    using assms by (simp add: uint_sint take_bit_int_eq_self)
qed

lemma unat_nonneg_sint:
  fixes w :: "64 word"
  assumes "0 \<le>s w"
  shows "unat w = nat (sint w)"
  using assms by (simp add: unat_eq_nat_uint sint_nonneg_uint word_sle_eq)

lemma unat_ucast_le:
  fixes n :: "64 word"
  shows "unat (ucast n :: 32 word) \<le> unat n"
  by (simp add: unsigned_ucast_eq take_bit_nat_less_eq_self unsigned_take_bit_eq)

lemma partitionIndex_bound:
  assumes "0 \<le>s n" and "partitionIndex n key = Some idx"
  shows "unat idx < nat (sint n)"
proof -
  have nz: "(ucast n :: uint32) \<noteq> 0" and idx: "idx = hash key mod ucast n"
    using assms(2) by (auto simp: partitionIndex_def split: if_splits)
  have "unat idx < unat (ucast n :: uint32)"
    using nz unfolding idx unat_mod by (simp add: unat_gt_0)
  also have "\<dots> \<le> unat n" by (rule unat_ucast_le)
  also have "\<dots> = nat (sint n)"
    using assms(1) by (rule unat_nonneg_sint)
  finally show ?thesis .
qed

section \<open>Claims about single partitions\<close>

text \<open>
  C6, as stated: at every point of a run a partition that is not errored has
  \<open>current \<le> capacity\<close>, from initialization on. It fails at initialization when the
  configured floor is above the ceiling: with \<open>min = 1\<close> and \<open>max = 0\<close> the only
  partition starts at 1, not errored.
\<close>

theorem capacity_invariant_counterexample:
  "reaches (exampleConfig 1 1 0 100 []) (initState (exampleConfig 1 1 0 100 []))
       (initState (exampleConfig 1 1 0 100 []))
   \<and> \<not> errored (partitionList (initState (exampleConfig 1 1 0 100 [])) ! 0)
   \<and> \<not> current (partitionList (initState (exampleConfig 1 1 0 100 [])) ! 0)
         \<le>s max_p (partitionList (initState (exampleConfig 1 1 0 100 [])) ! 0)"
  by (simp add: reaches_refl word_sle_eq)

text \<open>
  C6, as amended: when the floor is not above the ceiling (\<open>min \<le> max\<close>), at every point
  of a run every partition has the configured ceiling as its capacity and, unless it is
  errored, a \<open>current\<close> value that does not exceed it.
\<close>

theorem capacity_invariant:
  assumes "reaches config (initState config) st"
    and "min_c config \<le>s max_c config"
    and "i < length (partitionList st)"
    and "\<not> errored (partitionList st ! i)"
  shows "max_p (partitionList st ! i) = max_c config
         \<and> current (partitionList st ! i) \<le>s max_p (partitionList st ! i)"
proof -
  have "\<forall>i < length (partitionList (initState config)).
          max_p (partitionList (initState config) ! i) = max_c config
          \<and> (\<not> errored (partitionList (initState config) ! i)
               \<longrightarrow> current (partitionList (initState config) ! i) \<le>s max_c config)"
    using assms(2) by simp
  from reaches_capacity [OF assms(1) this] assms(3,4) show ?thesis by simp
qed

theorem capacity_invariant_witness:
  "reaches (exampleConfig 1 0 10 100 []) (initState (exampleConfig 1 0 10 100 []))
      \<lparr> partitionList = [\<lparr> current = 5, max_p = 10, errored = False \<rparr>],
        result = \<lparr> totalDocuments = 1, totalIDs = 5, partitionCounts = [5] \<rparr>,
        erroredPartitions = 0, pinnedMessages = [], loggedOutliers = (\<lambda>_. False) \<rparr>
   \<and> min_c (exampleConfig 1 0 10 100 []) \<le>s max_c (exampleConfig 1 0 10 100 [])
   \<and> (5 :: int64) \<le>s 10"
proof -
  let ?c = "exampleConfig 1 0 10 100 []"
  let ?s = "\<lparr> partitionList = [\<lparr> current = 5, max_p = 10, errored = False \<rparr>],
        result = \<lparr> totalDocuments = 1, totalIDs = 5, partitionCounts = [5] \<rparr>,
        erroredPartitions = 0, pinnedMessages = [], loggedOutliers = (\<lambda>_. False) \<rparr>"
  have step: "processRecord ?c [''1'', ''5''] (initState ?c) = (Continue, ?s)"
    using example_admit [of 0 "[]"] by simp
  have r: "reaches ?c (initState ?c) ?s"
    by (rule reaches_step [OF reaches_refl step]) simp
  have m: "min_c ?c \<le>s max_c ?c" by (simp add: word_sle_eq)
  show ?thesis
    using r m capacity_invariant [OF r m, of 0] by simp
qed

text \<open>
  C7. Once a partition is errored it stays errored and its \<open>current\<close> value is the same
  at every later point of the run, whatever records and iterations follow.
\<close>

theorem errored_is_sticky:
  assumes "reaches config st st'"
    and "i < length (partitionList st)"
    and "errored (partitionList st ! i)"
  shows "errored (partitionList st' ! i)
         \<and> current (partitionList st' ! i) = current (partitionList st ! i)"
  using reaches_errored_kept [OF assms(1)] assms(2,3) by simp

theorem errored_is_sticky_witness:
  "reaches (exampleConfig 1 0 10 100 [])
      \<lparr> partitionList = [\<lparr> current = 0, max_p = 10, errored = True \<rparr>],
        result = \<lparr> totalDocuments = 1, totalIDs = 11, partitionCounts = [0] \<rparr>,
        erroredPartitions = 1, pinnedMessages = [], loggedOutliers = (\<lambda>_. False) \<rparr>
      \<lparr> partitionList = [\<lparr> current = 0, max_p = 10, errored = True \<rparr>],
        result = \<lparr> totalDocuments = 2, totalIDs = 14, partitionCounts = [0] \<rparr>,
        erroredPartitions = 1, pinnedMessages = [], loggedOutliers = (\<lambda>_. False) \<rparr>
   \<and> errored (\<lparr> current = 0 :: int64, max_p = 10 :: int64, errored = True \<rparr>)"
proof -
  let ?c = "exampleConfig 1 0 10 100 []"
  let ?s1 = "\<lparr> partitionList = [\<lparr> current = 0, max_p = 10, errored = True \<rparr>],
        result = \<lparr> totalDocuments = 1, totalIDs = 11, partitionCounts = [0] \<rparr>,
        erroredPartitions = 1, pinnedMessages = [], loggedOutliers = (\<lambda>_. False) \<rparr>"
  let ?s2 = "\<lparr> partitionList = [\<lparr> current = 0, max_p = 10, errored = True \<rparr>],
        result = \<lparr> totalDocuments = 2, totalIDs = 14, partitionCounts = [0] \<rparr>,
        erroredPartitions = 1, pinnedMessages = [], loggedOutliers = (\<lambda>_. False) \<rparr>"
  have r: "reaches ?c ?s1 ?s2"
    by (rule reaches_step [OF reaches_refl example_dropped]) simp
  have l: "0 < length (partitionList ?s1)" by simp
  have e: "errored (partitionList ?s1 ! 0)" by simp
  show ?thesis
    using r errored_is_sticky [OF r l e] by simp
qed

text \<open>
  C8, as stated: for every key and every \<open>partitionCount \<ge> 1\<close> the index is in range and
  the modulo is not taken by zero. The code converts \<open>config.partitions\<close> to \<open>uint32\<close>
  before the modulo, so at \<open>partitionCount = 2 ^ 32\<close> the divisor is 0.
\<close>

theorem partition_index_counterexample:
  "1 \<le>s (4294967296 :: goint) \<and> partitionIndex 4294967296 1 = None"
  by (simp add: partitionIndex_def word_sle_eq)

text \<open>
  C8, as amended: for every key and every \<open>partitionCount \<ge> 1\<close> whose low 32 bits are
  not all zero (so every \<open>partitionCount\<close> from 1 to \<open>2 ^ 32 - 1\<close>), the modulo is not
  taken by zero and the index is below \<open>partitionCount\<close>, hence within
  \<open>partitionList\<close> and \<open>partitionCounts\<close> at every point of the run.
\<close>

theorem partition_index_in_range:
  assumes "1 \<le>s partitions config"
    and "(ucast (partitions config) :: uint32) \<noteq> 0"
    and "reaches config (initState config) st"
  shows "\<exists>idx. partitionIndex (partitions config) key = Some idx
           \<and> idx = hash key mod ucast (partitions config)
           \<and> unat idx < nat (sint (partitions config))
           \<and> unat idx < length (partitionList st)
           \<and> unat idx < length (partitionCounts (result st))"
proof -
  have p: "partitionIndex (partitions config) key = Some (hash key mod ucast (partitions config))"
    using assms(2) by (simp add: partitionIndex_def)
  have "0 \<le>s partitions config"
    using assms(1) by (simp add: word_sle_eq)
  from partitionIndex_bound [OF this p]
  have b: "unat (hash key mod ucast (partitions config)) < nat (sint (partitions config))" .
  have "length (partitionList st) = nat (sint (partitions config))"
    and "length (partitionCounts (result st)) = nat (sint (partitions config))"
    using reaches_shape [OF assms(3)] by simp_all
  with p b show ?thesis by simp
qed

theorem partition_index_in_range_witness:
  "1 \<le>s partitions (exampleConfig 3 0 10 100 [])
   \<and> (ucast (partitions (exampleConfig 3 0 10 100 [])) :: uint32) \<noteq> 0
   \<and> reaches (exampleConfig 3 0 10 100 []) (initState (exampleConfig 3 0 10 100 []))
        (initState (exampleConfig 3 0 10 100 []))
   \<and> (\<exists>idx. partitionIndex 3 1 = Some idx \<and> idx = hash 1 mod 3 \<and> unat idx < 3)"
proof -
  let ?c = "exampleConfig 3 0 10 100 []"
  have a: "1 \<le>s partitions ?c" by (simp add: word_sle_eq)
  have b: "(ucast (partitions ?c) :: uint32) \<noteq> 0" by simp
  have r: "reaches ?c (initState ?c) (initState ?c)" by (rule reaches_refl)
  show ?thesis
    using a b r partition_index_in_range [OF a b r, of 1] by simp
qed


section \<open>Whole runs\<close>

lemma run_single:
  assumes "iterations config = 1"
  shows "run config = Some (scanFile config (initState config))"
proof -
  obtain fl st where s: "scanFile config (initState config) = (fl, st)"
    by (cases "scanFile config (initState config)")
  have one: "(1 :: goint) \<le>s iterations config"
    and two: "\<not> (1 + 1 :: goint) \<le>s iterations config"
    using assms by (simp_all add: word_sle_eq)
  show ?thesis
  proof (cases "fl = Continue")
    case True
    then show ?thesis
      unfolding run_def s
      using iterate_next [OF one, of "initState config" st] s iterate_done [OF two, of st]
      by simp
  next
    case False
    then show ?thesis
      unfolding run_def s using iterate_stop [OF one s] by simp
  qed
qed

lemma example_scan [simp]:
  "scanFile (exampleConfig n lo hi out rs) st
     = scanRecords (exampleConfig n lo hi out rs) (map Some rs) st"
  by (simp add: scanFile_def)

lemma ProcessCSV_Returned:
  assumes "ProcessCSV config = Some (Returned res err)"
  obtains fl st where "run config = Some (fl, st)" and "fl \<noteq> Panic" and "res = result st"
    and "\<not> partitions config <s 0"
  using assms unfolding ProcessCSV_def finish_def
  by (auto split: if_splits option.splits flow.splits)

lemma run_counts:
  assumes "run config = Some (fl, st)" and "fl \<noteq> Panic"
  shows "length (partitionList st) = nat (sint (partitions config))"
    and "length (partitionCounts (result st)) = nat (sint (partitions config))"
    and "\<forall>i < nat (sint (partitions config)).
           partitionCounts (result st) ! i = current (partitionList st ! i)
           \<or> (partitionCounts (result st) ! i = 0
                \<and> current (partitionList st ! i) = min_c config)"
proof -
  have r: "reaches config (initState config) st"
    using assms by (rule run_reaches)
  show l1: "length (partitionList st) = nat (sint (partitions config))"
    and "length (partitionCounts (result st)) = nat (sint (partitions config))"
    using reaches_shape [OF r] by simp_all
  have "length (partitionCounts (result st)) = length (partitionList st)
       \<and> (\<forall>i < length (partitionList st).
           partitionCounts (result st) ! i = current (partitionList st ! i)
           \<or> (partitionCounts (result st) ! i = 0 \<and> current (partitionList st ! i) = min_c config))"
    by (rule reaches_counts [OF r]) simp_all
  then show "\<forall>i < nat (sint (partitions config)).
           partitionCounts (result st) ! i = current (partitionList st ! i)
           \<or> (partitionCounts (result st) ! i = 0
                \<and> current (partitionList st ! i) = min_c config)"
    using l1 by simp
qed

text \<open>
  C3, as stated: \<open>partitionCounts\<close> is the sequence of the final \<open>current\<close> values, a
  partition that admitted no record contributing \<open>min\<close>. The code creates
  \<open>partitionCounts\<close> as zeros and writes an entry only when a record is admitted: with
  \<open>min = 1\<close> and no record, the partition ends at \<open>current = 1\<close> and its entry is 0.
\<close>

theorem partitionCounts_counterexample:
  "ProcessCSV (exampleConfig 1 1 100 100 [])
     = Some (Returned \<lparr> totalDocuments = 0, totalIDs = 0, partitionCounts = [0] \<rparr> None)
   \<and> run (exampleConfig 1 1 100 100 [])
     = Some (Continue, initState (exampleConfig 1 1 100 100 []))
   \<and> map current (partitionList (initState (exampleConfig 1 1 100 100 []))) = [1]"
proof -
  have r: "run (exampleConfig 1 1 100 100 [])
             = Some (Continue, initState (exampleConfig 1 1 100 100 []))"
    by (simp add: run_single)
  then show ?thesis
    by (simp add: ProcessCSV_def finish_def classify_def initState_def word_sless_alt)
qed

text \<open>
  C3, as amended: the Result's \<open>partitionCounts\<close> has one entry per partition, in
  partition-index order; each entry is the final \<open>current\<close> value of its partition, or 0
  for a partition whose \<open>current\<close> is still its initial value \<open>min\<close>. It is the
  sequence of the final \<open>current\<close> values whenever \<open>min = 0\<close>.
\<close>

theorem partitionCounts_of_result:
  assumes "ProcessCSV config = Some (Returned res err)"
  shows "\<exists>fl st. run config = Some (fl, st) \<and> res = result st
           \<and> length (partitionList st) = nat (sint (partitions config))
           \<and> length (partitionCounts res) = nat (sint (partitions config))
           \<and> (\<forall>i < nat (sint (partitions config)).
                 partitionCounts res ! i = current (partitionList st ! i)
                 \<or> (partitionCounts res ! i = 0
                      \<and> current (partitionList st ! i) = min_c config))
           \<and> (min_c config = 0 \<longrightarrow> partitionCounts res = map current (partitionList st))"
proof -
  from assms obtain fl st where run: "run config = Some (fl, st)" and fl: "fl \<noteq> Panic"
    and res: "res = result st"
    by (rule ProcessCSV_Returned)
  note c = run_counts [OF run fl]
  have "partitionCounts res = map current (partitionList st)" if "min_c config = 0"
    using c that unfolding res by (intro nth_equalityI) auto
  then show ?thesis
    using run res c by auto
qed

theorem partitionCounts_of_result_witness:
  "ProcessCSV (exampleConfig 1 0 10 100 [[''1'', ''5'']])
     = Some (Returned \<lparr> totalDocuments = 1, totalIDs = 5, partitionCounts = [5] \<rparr> None)
   \<and> (\<exists>fl st. run (exampleConfig 1 0 10 100 [[''1'', ''5'']]) = Some (fl, st)
         \<and> partitionCounts (result st) = [5]
         \<and> map current (partitionList st) = [5])"
proof -
  let ?c = "exampleConfig 1 0 10 100 [[''1'', ''5'']]"
  have r: "run ?c = Some (Continue,
        \<lparr> partitionList = [\<lparr> current = 5, max_p = 10, errored = False \<rparr>],
          result = \<lparr> totalDocuments = 1, totalIDs = 5, partitionCounts = [5] \<rparr>,
          erroredPartitions = 0, pinnedMessages = [], loggedOutliers = (\<lambda>_. False) \<rparr>)"
    using example_admit [of 0 "[[''1'', ''5'']]"] by (simp add: run_single)
  have p: "ProcessCSV ?c
     = Some (Returned \<lparr> totalDocuments = 1, totalIDs = 5, partitionCounts = [5] \<rparr> None)"
    using r by (simp add: ProcessCSV_def finish_def classify_def word_sless_alt)
  show ?thesis
    using p r partitionCounts_of_result [OF p] by auto
qed


section \<open>The outcome of a run\<close>

lemma sint_of_nat_small:
  assumes "int k < 2 ^ 63"
  shows "sint (word_of_nat k :: 64 word) = int k"
proof -
  have "sint (word_of_nat k :: 64 word) = signed_take_bit 63 (int k)"
    by (simp add: signed_of_nat)
  also have "\<dots> = int k"
    using assms by (intro signed_take_bit_int_eq_self) simp_all
  finally show ?thesis .
qed

lemma showInt_one: "showInt 1 = ''1''"
  by (simp add: showInt_def showNat.simps [of 1] word_sless_alt)

lemma run_erroredPartitions:
  assumes "run config = Some (fl, st)" and "fl \<noteq> Panic" and "0 \<le>s partitions config"
  shows "erroredPartitions st = word_of_nat (length (filter errored (partitionList st)))"
    and "0 \<le>s erroredPartitions st" and "erroredPartitions st \<le>s partitions config"
proof -
  have r: "reaches config (initState config) st"
    using assms(1,2) by (rule run_reaches)
  show e: "erroredPartitions st = word_of_nat (length (filter errored (partitionList st)))"
    by (rule reaches_erroredPartitions [OF r]) simp
  have len: "length (partitionList st) = nat (sint (partitions config))"
    using reaches_shape [OF r] by simp
  have "length (filter errored (partitionList st)) \<le> length (partitionList st)"
    by simp
  then have k: "int (length (filter errored (partitionList st))) \<le> sint (partitions config)"
    using len assms(3) by (simp add: word_sle_eq)
  moreover have "sint (partitions config) < 2 ^ 63"
    using sint_lt [of "partitions config"] by simp
  ultimately have "sint (erroredPartitions st) = int (length (filter errored (partitionList st)))"
    unfolding e by (intro sint_of_nat_small) simp
  with k show "0 \<le>s erroredPartitions st" and "erroredPartitions st \<le>s partitions config"
    by (simp_all add: word_sle_eq)
qed

lemma run_completed_seek:
  assumes "run config = Some (Continue, st)" and "1 \<le>s iterations config"
  shows "seekCurrent (file_c config)"
proof (rule ccontr)
  assume n: "\<not> seekCurrent (file_c config)"
  then have "scanFile config (initState config)
               = (Return (WrapErr ''error getting file position''), initState config)"
    by (simp add: scanFile_def)
  from iterate_stop [OF assms(2) this] assms(1) show False
    by (simp add: run_def)
qed

text \<open>
  C5. A run with at least one partition and one iteration that completes all its
  iterations returns its Result together with an error that the final count of errored
  partitions determines, the cases taken in the order of the specification: none when the
  count is 0, "all partitions have exceeded their maximum value" when it is the number of
  partitions, "1 partition exceeded its maximum value" when it is 1, and
  "n partitions exceeded their maximum value" for any other n between 0 and the number
  of partitions. The count is the number of errored partitions, so no other case arises.
\<close>

theorem outcome_classification:
  assumes "1 \<le>s partitions config" and "1 \<le>s iterations config"
    and "run config = Some (Continue, st)"
  shows "\<exists>err. ProcessCSV config = Some (Returned (result st) err)
     \<and> erroredPartitions st = word_of_nat (length (filter errored (partitionList st)))
     \<and> 0 \<le>s erroredPartitions st \<and> erroredPartitions st \<le>s partitions config
     \<and> (erroredPartitions st = 0 \<longrightarrow> err = None)
     \<and> (erroredPartitions st = partitions config
          \<longrightarrow> err = Some (NewErr ''all partitions have exceeded their maximum value''))
     \<and> (erroredPartitions st = 1 \<and> erroredPartitions st \<noteq> partitions config
          \<longrightarrow> err = Some (NewErr ''1 partition exceeded its maximum value''))
     \<and> (0 <s erroredPartitions st \<and> erroredPartitions st <s partitions config
            \<and> erroredPartitions st \<noteq> 1
          \<longrightarrow> err = Some (NewErr (showInt (erroredPartitions st)
                                     @ '' partitions exceeded their maximum value'')))"
proof -
  have nonneg: "0 \<le>s partitions config" and pos: "partitions config \<noteq> 0"
    and notneg: "\<not> partitions config <s 0"
    using assms(1) by (auto simp: word_sle_eq word_sless_alt)
  have seek: "seekCurrent (file_c config)"
    using assms(3,2) by (rule run_completed_seek)
  have p: "ProcessCSV config = Some (Returned (result st) (classify config st))"
    using assms(3) notneg seek by (simp add: ProcessCSV_def finish_def)
  note e = run_erroredPartitions [OF assms(3) _ nonneg]
  have c0: "erroredPartitions st = 0 \<Longrightarrow> classify config st = None"
    using pos by (auto simp: classify_def word_sless_alt)
  have c1: "erroredPartitions st = partitions config \<Longrightarrow> classify config st
              = Some (NewErr ''all partitions have exceeded their maximum value'')"
    by (simp add: classify_def)
  have c2: "erroredPartitions st = 1 \<and> erroredPartitions st \<noteq> partitions config
              \<Longrightarrow> classify config st
                    = Some (NewErr ''1 partition exceeded its maximum value'')"
    by (auto simp: classify_def showInt_one)
  have c3: "0 <s erroredPartitions st \<and> erroredPartitions st <s partitions config
              \<and> erroredPartitions st \<noteq> 1
              \<Longrightarrow> classify config st
                    = Some (NewErr (showInt (erroredPartitions st)
                                     @ '' partitions exceeded their maximum value''))"
    by (auto simp: classify_def word_sless_alt)
  show ?thesis
    using p e c0 c1 c2 c3 by blast
qed

lemma hash_one: "hash 1 = 2389907270"
  by code_simp

lemma partitionIndex_two_one: "partitionIndex 2 1 = Some 0"
  by (simp add: partitionIndex_def hash_one)

theorem outcome_classification_witness:
  "1 \<le>s partitions (exampleConfig 2 0 10 100 [[''1'', ''11'']])
   \<and> 1 \<le>s iterations (exampleConfig 2 0 10 100 [[''1'', ''11'']])
   \<and> run (exampleConfig 2 0 10 100 [[''1'', ''11'']]) = Some (Continue,
        \<lparr> partitionList = [\<lparr> current = 0, max_p = 10, errored = True \<rparr>,
                           \<lparr> current = 0, max_p = 10, errored = False \<rparr>],
          result = \<lparr> totalDocuments = 1, totalIDs = 11, partitionCounts = [0, 0] \<rparr>,
          erroredPartitions = 1, pinnedMessages = [], loggedOutliers = (\<lambda>_. False) \<rparr>)
   \<and> ProcessCSV (exampleConfig 2 0 10 100 [[''1'', ''11'']])
       = Some (Returned \<lparr> totalDocuments = 1, totalIDs = 11, partitionCounts = [0, 0] \<rparr>
                 (Some (NewErr ''1 partition exceeded its maximum value'')))"
proof -
  let ?c = "exampleConfig 2 0 10 100 [[''1'', ''11'']]"
  let ?s = "\<lparr> partitionList = [\<lparr> current = 0, max_p = 10, errored = True \<rparr>,
                           \<lparr> current = 0, max_p = 10, errored = False \<rparr>],
          result = \<lparr> totalDocuments = 1, totalIDs = 11, partitionCounts = [0, 0] \<rparr>,
          erroredPartitions = 1, pinnedMessages = [], loggedOutliers = (\<lambda>_. False) \<rparr>"
  have a: "1 \<le>s partitions ?c" and b: "1 \<le>s iterations ?c"
    by (simp_all add: word_sle_eq)
  have step: "processRecord ?c [''1'', ''11''] (initState ?c) = (Continue, ?s)"
    by (simp add: processRecord_def parse_examples routeRecord_def countRecord_def
        initState_def Let_def partitionIndex_two_one numeral_2_eq_2)
  have r: "run ?c = Some (Continue, ?s)"
    using step by (simp add: run_single)
  show ?thesis
    using a b r outcome_classification [OF a b r] by auto
qed


section \<open>Decimal text and ParseInt\<close>

lemma foldl_decimal_ge:
  "n \<le> foldl (\<lambda>n c. n * 10 + digitVal c) n cs"
proof (induction cs arbitrary: n)
  case Nil
  show ?case by simp
next
  case (Cons c cs)
  have "n \<le> n * 10 + digitVal c" by simp
  also have "\<dots> \<le> foldl (\<lambda>n c. n * 10 + digitVal c) (n * 10 + digitVal c) cs"
    by (rule Cons.IH)
  finally show ?case by simp
qed

lemma parseDigits_decimal:
  assumes "list_all isDigit cs"
    and "foldl (\<lambda>n c. n * 10 + digitVal c) n cs \<le> maxVal"
    and "maxVal < 2 ^ 64"
  shows "parseDigits maxVal n cs = Inr (foldl (\<lambda>n c. n * 10 + digitVal c) n cs)"
  using assms
proof (induction cs arbitrary: n)
  case Nil
  show ?case by simp
next
  case (Cons c cs)
  let ?n1 = "n * 10 + digitVal c"
  have d: "isDigit c" and ds: "list_all isDigit cs"
    using Cons.prems(1) by simp_all
  have "?n1 \<le> foldl (\<lambda>n c. n * 10 + digitVal c) ?n1 cs"
    by (rule foldl_decimal_ge)
  then have n1: "?n1 \<le> maxVal"
    using Cons.prems(2) by simp
  then have small: "?n1 < 2 ^ 64"
    using Cons.prems(3) by simp
  then have cut: "\<not> cutoff10 \<le> n"
    by (simp add: cutoff10_def)
  have "parseDigits maxVal ?n1 cs = Inr (foldl (\<lambda>n c. n * 10 + digitVal c) ?n1 cs)"
    using ds Cons.prems(2,3) by (intro Cons.IH) simp_all
  then show ?case
    using d cut n1 small by (simp add: Let_def)
qed

lemma ParseUint_decimal:
  assumes "isDecimal ds" and "decimalValue ds \<le> 2 ^ bitSize - 1" and "bitSize \<le> 64"
  shows "ParseUint ds bitSize = Inr (decimalValue ds)"
proof -
  have "(2 :: nat) ^ bitSize \<le> 2 ^ 64"
    using assms(3) by (intro power_increasing) simp_all
  then have "(2 :: nat) ^ bitSize - 1 < 2 ^ 64"
    by simp
  then show ?thesis
    using assms(1,2) unfolding ParseUint_def isDecimal_def decimalValue_def
    by (simp add: parseDigits_decimal)
qed

lemma ParseInt_negative_decimal:
  assumes "isDecimal ds" and "decimalValue ds \<le> 2 ^ 31"
  shows "ParseInt (CHR ''-'' # ds) 32 = Inr (- word_of_nat (decimalValue ds))"
proof -
  have "decimalValue ds \<le> 2 ^ 32 - 1"
    using assms(2) by simp
  then have "ParseUint ds 32 = Inr (decimalValue ds)"
    using assms(1) by (intro ParseUint_decimal) simp_all
  then show ?thesis
    using assms(2) by (simp add: ParseInt_def Let_def)
qed

lemma ucast_neg_of_nat:
  "(ucast (- word_of_nat n :: 64 word) :: 32 word) = - word_of_nat n"
proof -
  have "(- word_of_nat n :: 64 word) = word_of_int (- int n)" by simp
  moreover have "(ucast (word_of_int (- int n) :: 64 word) :: 32 word) = word_of_int (- int n)"
    by (simp add: unsigned_of_int word_of_int_eq_iff take_bit_take_bit del: of_int_minus)
  ultimately show ?thesis by simp
qed

lemma unat_neg_of_nat:
  assumes "1 \<le> n" and "n \<le> 2 ^ 31"
  shows "unat (- word_of_nat n :: 32 word) = 2 ^ 32 - n"
proof -
  have eq: "(- word_of_nat n :: 32 word) = word_of_nat (2 ^ 32 - n)"
    using assms by (simp add: of_nat_diff)
  have "unat (word_of_nat (2 ^ 32 - n) :: 32 word) = (2 ^ 32 - n) mod 2 ^ LENGTH(32)"
    by (rule unat_of_nat)
  also have "\<dots> = 2 ^ 32 - n"
    using assms by simp
  finally show ?thesis
    unfolding eq .
qed

text \<open>
  C10. A row whose key field is a minus sign followed by decimal digits that write a
  number from 1 to \<open>2 ^ 31\<close> is not a parse failure: the key parses to the negative
  number, the conversion to \<open>uint32\<close> gives its two's complement value \<open>2 ^ 32 - n\<close>
  ("-1" becomes 4294967295), and, the weight parsing too, the record is counted in
  \<open>totalDocuments\<close> and \<open>totalIDs\<close> and routed by the hash of that value like any other
  record.
\<close>

theorem negative_key_is_processed:
  assumes "isDecimal ds" and "1 \<le> decimalValue ds" and "decimalValue ds \<le> 2 ^ 31"
    and "ParseInt w 64 = Inr count"
  shows "ParseInt (CHR ''-'' # ds) 32 = Inr (- word_of_nat (decimalValue ds))
     \<and> parseRecord ((CHR ''-'' # ds) # w # others)
          = Parsed (- word_of_nat (decimalValue ds)) count
     \<and> unat (- word_of_nat (decimalValue ds) :: uint32) = 2 ^ 32 - decimalValue ds
     \<and> processRecord config ((CHR ''-'' # ds) # w # others) st
          = routeRecord config (- word_of_nat (decimalValue ds)) count (countRecord count st)
     \<and> totalDocuments (result (snd (processRecord config ((CHR ''-'' # ds) # w # others) st)))
          = totalDocuments (result st) + 1
     \<and> totalIDs (result (snd (processRecord config ((CHR ''-'' # ds) # w # others) st)))
          = totalIDs (result st) + count"
proof -
  let ?key = "- word_of_nat (decimalValue ds) :: uint32"
  have k: "ParseInt (CHR ''-'' # ds) 32 = Inr (- word_of_nat (decimalValue ds))"
    using assms(1,3) by (rule ParseInt_negative_decimal)
  have p: "parseRecord ((CHR ''-'' # ds) # w # others) = Parsed ?key count"
    using k assms(4) by (simp add: parseRecord_def ucast_neg_of_nat)
  have u: "unat ?key = 2 ^ 32 - decimalValue ds"
    using assms(2,3) by (rule unat_neg_of_nat)
  have r: "processRecord config ((CHR ''-'' # ds) # w # others) st
             = routeRecord config ?key count (countRecord count st)"
    using p by (simp add: processRecord_def)
  obtain fl st' where rr: "routeRecord config ?key count (countRecord count st) = (fl, st')"
    by (cases "routeRecord config ?key count (countRecord count st)")
  have t: "totalDocuments (result st') = totalDocuments (result st) + 1
           \<and> totalIDs (result st') = totalIDs (result st) + count"
    using routeRecord_totals [OF rr] by simp
  show ?thesis
    using k p u r rr t by simp
qed

theorem negative_key_is_processed_witness:
  "isDecimal ''1'' \<and> decimalValue ''1'' = 1 \<and> ParseInt ''5'' 64 = Inr 5
   \<and> ParseInt ''-1'' 32 = Inr (- 1)
   \<and> unat (- 1 :: uint32) = 4294967295
   \<and> totalDocuments (result (snd (processRecord (exampleConfig 1 0 10 100 []) [''-1'', ''5'']
         (initState (exampleConfig 1 0 10 100 []))))) = 1
   \<and> totalIDs (result (snd (processRecord (exampleConfig 1 0 10 100 []) [''-1'', ''5'']
         (initState (exampleConfig 1 0 10 100 []))))) = 5"
proof -
  let ?c = "exampleConfig 1 0 10 100 []"
  have a: "isDecimal ''1''" by (simp add: isDecimal_def isDigit_def)
  have v: "decimalValue ''1'' = 1" by (simp add: decimalValue_def digitVal_def)
  have b: "1 \<le> decimalValue ''1''" and c: "decimalValue ''1'' \<le> 2 ^ 31"
    by (simp_all add: v)
  have d: "ParseInt ''5'' 64 = Inr 5" by (simp add: parse_defs)
  note t = negative_key_is_processed [OF a b c d, of "[]" ?c "initState ?c"]
  from t have "ParseInt ''-1'' 32 = Inr (- word_of_nat (decimalValue ''1''))"
    by blast
  then have k: "ParseInt ''-1'' 32 = Inr (- 1)"
    by (simp add: v)
  from t have "unat (- word_of_nat (decimalValue ''1'') :: uint32) = 2 ^ 32 - decimalValue ''1''"
    by blast
  then have u: "unat (- 1 :: uint32) = 4294967295"
    by (simp add: v)
  from t have "totalDocuments (result (snd (processRecord ?c [''-1'', ''5''] (initState ?c))))
                 = totalDocuments (result (initState ?c)) + 1"
    by blast
  then have td: "totalDocuments (result (snd (processRecord ?c [''-1'', ''5''] (initState ?c)))) = 1"
    by simp
  from t have "totalIDs (result (snd (processRecord ?c [''-1'', ''5''] (initState ?c))))
                 = totalIDs (result (initState ?c)) + 5"
    by blast
  then have ti: "totalIDs (result (snd (processRecord ?c [''-1'', ''5''] (initState ?c)))) = 5"
    by simp
  show ?thesis
    using a v d k u td ti by blast
qed


section \<open>The accounting equation\<close>

lemma sum_list_update_word:
  fixes xs :: "int64 list"
  assumes "i < length xs"
  shows "sum_list (xs[i := v]) = sum_list xs - xs ! i + v"
  using assms
proof (induction xs arbitrary: i)
  case Nil
  then show ?case by simp
next
  case (Cons x xs)
  then show ?case by (cases i) simp_all
qed

lemma map_current_errored:
  assumes "i < length ps"
  shows "map current (ps[i := (ps ! i)\<lparr> errored := True \<rparr>]) = map current ps"
  using assms by (simp add: map_update list_update_same_conv)

lemma map_current_update:
  "map current (ps[i := (ps ! i)\<lparr> current := v \<rparr>]) = (map current ps)[i := v]"
  by (simp add: map_update)

lemma recordLedger_parsed:
  assumes "parseRecord rcd = Parsed d c"
    and "partitionIndex (partitions config) d = Some idx"
    and "unat idx < length (partitionList st)"
  shows "recordLedger config rcd st =
     (if outlier config <s c \<and> \<not> loggedOutliers st d then (c, 0)
      else if errored (partitionList st ! unat idx) then (0, c)
      else if max_p (partitionList st ! unat idx) <s current (partitionList st ! unat idx) + c
      then (0, c) else (0, 0))"
  using assms by (simp add: recordLedger_def)

lemma recordLedger_not_parsed:
  assumes "parseRecord rcd = Skipped \<or> parseRecord rcd = IndexPanic"
  shows "recordLedger config rcd st = (0, 0)"
  using assms by (auto simp: recordLedger_def)

lemma processRecord_balance:
  assumes step: "processRecord config rcd st = (fl, st')" and fl: "fl \<noteq> Panic"
    and counts: "partitionCounts (result st) = map current (partitionList st)"
    and bal: "sum_list (partitionCounts (result st)) + dropped = totalIDs (result st) - filtered"
  shows "partitionCounts (result st') = map current (partitionList st')
       \<and> sum_list (partitionCounts (result st')) + (dropped + snd (recordLedger config rcd st))
           = totalIDs (result st') - (filtered + fst (recordLedger config rcd st))"
  using step
proof (cases rule: processRecord_cases)
  case index_panic
  then show ?thesis using fl by simp
next
  case skipped
  then show ?thesis using counts bal by (simp add: recordLedger_not_parsed)
next
  case (parsed d c)
  from parsed(2) show ?thesis
  proof (cases rule: routeRecord_cases)
    case panic
    then show ?thesis using fl by simp
  next
    case (outlier idx)
    then have "recordLedger config rcd st = (c, 0)"
      using parsed(1) by (simp add: recordLedger_parsed)
    then show ?thesis using outlier counts bal by simp
  next
    case (overflow idx)
    then have "recordLedger config rcd st = (0, c)"
      using parsed(1) by (auto simp: recordLedger_parsed)
    then show ?thesis
      using overflow counts bal by (simp add: map_current_errored algebra_simps)
  next
    case (admit idx)
    then have l: "recordLedger config rcd st = (0, 0)"
      using parsed(1) by (auto simp: recordLedger_parsed)
    have "partitionCounts (result st) ! unat idx = current (partitionList st ! unat idx)"
      using admit(2) counts by simp
    then show ?thesis
      using l admit counts bal
      by (simp add: map_current_update sum_list_update_word algebra_simps)
  next
    case (dropped idx)
    then have "recordLedger config rcd st = (0, c)"
      using parsed(1) by (auto simp: recordLedger_parsed)
    then show ?thesis using dropped counts bal by (simp add: algebra_simps)
  qed
qed

lemma scanRecords_balance:
  assumes "scanRecords config rs st = (fl, st')" and "fl \<noteq> Panic"
    and "partitionCounts (result st) = map current (partitionList st)"
    and "sum_list (partitionCounts (result st)) + dropped = totalIDs (result st) - filtered"
  shows "partitionCounts (result st') = map current (partitionList st')
       \<and> sum_list (partitionCounts (result st')) + (dropped + snd (scanLedger config rs st))
           = totalIDs (result st') - (filtered + fst (scanLedger config rs st))"
  using assms
proof (induction rs arbitrary: st dropped filtered)
  case Nil
  then show ?case by simp
next
  case (Cons r rs)
  show ?case
  proof (cases r)
    case None
    with Cons.prems show ?thesis by simp
  next
    case (Some rcd)
    show ?thesis
    proof (cases "seekCurrent (file_c config)")
      case False
      with Some Cons.prems show ?thesis by simp
    next
      case True
      obtain f1 st1 where p: "processRecord config rcd st = (f1, st1)"
        by (cases "processRecord config rcd st")
      have f1: "f1 \<noteq> Panic"
        using Cons.prems(1,2) Some True p by (cases f1) auto
      note b = processRecord_balance [OF p f1 Cons.prems(3,4)]
      show ?thesis
      proof (cases "f1 = Continue")
        case c: True
        then have s: "scanRecords config rs st1 = (fl, st')"
          using Cons.prems(1) Some True p by simp
        have "partitionCounts (result st') = map current (partitionList st')
           \<and> sum_list (partitionCounts (result st'))
               + (dropped + snd (recordLedger config rcd st) + snd (scanLedger config rs st1))
             = totalIDs (result st')
               - (filtered + fst (recordLedger config rcd st) + fst (scanLedger config rs st1))"
          using b by (intro Cons.IH [OF s Cons.prems(2)]) blast+
        then show ?thesis
          using Some True p c by (auto simp: Let_def add.assoc)
      next
        case n: False
        then have "st' = st1"
          using Cons.prems(1) Some True p by (cases f1) auto
        then show ?thesis
          using b Some True p n by (auto simp: Let_def)
      qed
    qed
  qed
qed

lemma initState_balance:
  assumes "min_c config = 0"
  shows "partitionCounts (result (initState config)) = map current (partitionList (initState config))"
    and "sum_list (partitionCounts (result (initState config))) + 0
           = totalIDs (result (initState config)) - 0"
  using assms by (simp_all add: sum_list_replicate)

text \<open>
  C9, as stated: for every run of one iteration the partition counts and the dropped
  amounts add up to \<open>totalIDs\<close> minus the weights filtered or not parsed. Every partition
  starts at \<open>min\<close>, which enters \<open>partitionCounts\<close> with the first admitted record but
  never \<open>totalIDs\<close>: with \<open>min = 1\<close> and the single record (1, 5) nothing is dropped,
  filtered or unparsed, \<open>totalIDs\<close> is 5 and the count is 6.
\<close>

theorem accounting_counterexample:
  "iterations (exampleConfig 1 1 100 1000 [[''1'', ''5'']]) = 1
   \<and> ProcessCSV (exampleConfig 1 1 100 1000 [[''1'', ''5'']])
        = Some (Returned \<lparr> totalDocuments = 1, totalIDs = 5, partitionCounts = [6] \<rparr> None)
   \<and> runLedger (exampleConfig 1 1 100 1000 [[''1'', ''5'']]) = (0, 0)
   \<and> sum_list [6 :: int64] + 0 \<noteq> 5 - 0"
proof -
  let ?c = "exampleConfig 1 1 100 1000 [[''1'', ''5'']]"
  let ?s = "\<lparr> partitionList = [\<lparr> current = 6, max_p = 100, errored = False \<rparr>],
          result = \<lparr> totalDocuments = 1, totalIDs = 5, partitionCounts = [6] \<rparr>,
          erroredPartitions = 0, pinnedMessages = [], loggedOutliers = (\<lambda>_. False) \<rparr>"
  have step: "processRecord ?c [''1'', ''5''] (initState ?c) = (Continue, ?s)"
    by (simp add: processRecord_def parse_examples routeRecord_def countRecord_def
        initState_def Let_def)
  have r: "run ?c = Some (Continue, ?s)"
    using step by (simp add: run_single)
  have p: "ProcessCSV ?c
        = Some (Returned \<lparr> totalDocuments = 1, totalIDs = 5, partitionCounts = [6] \<rparr> None)"
    using r by (simp add: ProcessCSV_def finish_def classify_def word_sless_alt)
  have l: "runLedger ?c = (0, 0)"
    using step by (simp add: runLedger_def recordLedger_def parse_examples Let_def)
  show ?thesis
    using p l by simp
qed

text \<open>
  C9, as amended: for every run of one iteration whose floor \<open>min\<close> is 0, at
  finalization, in wrapping \<open>int64\<close> arithmetic,
  \<open>sum(partitionCounts) + dropped = totalIDs - filtered\<close>, where \<open>filtered\<close> is the sum
  of the weights of the records skipped as outliers and \<open>dropped\<close> the sum of the weights
  of the parsed, unfiltered records that did not enter the \<open>current\<close> value of their
  partition (the record that overflows a partition and the records routed to an errored
  one). Records that fail to parse are in neither sum, as they are not in \<open>totalIDs\<close>.
\<close>

theorem accounting_equation:
  assumes "iterations config = 1" and "min_c config = 0"
    and "ProcessCSV config = Some (Returned res err)"
  shows "sum_list (partitionCounts res) + snd (runLedger config)
           = totalIDs res - fst (runLedger config)"
proof -
  from assms(3) obtain fl st where run: "run config = Some (fl, st)" and fl: "fl \<noteq> Panic"
    and res: "res = result st"
    by (rule ProcessCSV_Returned)
  have s: "scanFile config (initState config) = (fl, st)"
    using run run_single [OF assms(1)] by simp
  note i = initState_balance [OF assms(2)]
  show ?thesis
  proof (cases "seekCurrent (file_c config) \<and> seekStart (file_c config)
                 \<and> header (file_c config) \<noteq> None")
    case True
    then have "scanRecords config (rows (file_c config)) (initState config) = (fl, st)"
      using s by (auto simp: scanFile_def)
    from scanRecords_balance [OF this fl i, THEN conjunct2] True show ?thesis
      unfolding res by (simp add: runLedger_def)
  next
    case False
    then have "st = initState config"
      using s by (auto simp: scanFile_def split: if_splits option.splits)
    then show ?thesis
      using False i unfolding res by (auto simp: runLedger_def)
  qed
qed

theorem accounting_equation_witness:
  "iterations (exampleConfig 1 0 10 4 [[''1'', ''5''], [''x'', ''5''], [''2'', ''3''], [''1'', ''11'']]) = 1
   \<and> min_c (exampleConfig 1 0 10 4 [[''1'', ''5''], [''x'', ''5''], [''2'', ''3''], [''1'', ''11'']]) = 0
   \<and> (\<exists>err. ProcessCSV (exampleConfig 1 0 10 4
                  [[''1'', ''5''], [''x'', ''5''], [''2'', ''3''], [''1'', ''11'']])
        = Some (Returned \<lparr> totalDocuments = 3, totalIDs = 19, partitionCounts = [3] \<rparr> err))
   \<and> runLedger (exampleConfig 1 0 10 4 [[''1'', ''5''], [''x'', ''5''], [''2'', ''3''], [''1'', ''11'']])
        = (5, 11)
   \<and> sum_list [3 :: int64] + 11 = 19 - 5"
proof -
  let ?c = "exampleConfig 1 0 10 4 [[''1'', ''5''], [''x'', ''5''], [''2'', ''3''], [''1'', ''11'']]"
  have a: "iterations ?c = 1" and b: "min_c ?c = 0" by simp_all
  have l: "runLedger ?c = (5, 11)"
    by (simp add: runLedger_def recordLedger_def processRecord_def parse_examples
        routeRecord_def countRecord_def initState_def Let_def)
  have r: "run ?c = Some (Continue,
        \<lparr> partitionList = [\<lparr> current = 3, max_p = 10, errored = True \<rparr>],
          result = \<lparr> totalDocuments = 3, totalIDs = 19, partitionCounts = [3] \<rparr>,
          erroredPartitions = 1, pinnedMessages = [OutlierNotice 1 5 0],
          loggedOutliers = (\<lambda>_. False)(1 := True) \<rparr>)"
    by (simp add: run_single processRecord_def parse_examples
        routeRecord_def countRecord_def initState_def Let_def)
  have p: "ProcessCSV ?c
        = Some (Returned \<lparr> totalDocuments = 3, totalIDs = 19, partitionCounts = [3] \<rparr>
            (Some (NewErr ''all partitions have exceeded their maximum value'')))"
    using r by (simp add: ProcessCSV_def finish_def classify_def word_sless_alt)
  show ?thesis
    using a b p l accounting_equation [OF a b p] by simp
qed

section \<open>A repeated outlier\<close>

text \<open>
  C2. A parsed record over the outlier threshold whose key is already registered is
  skipped without a notice and without a partition update. The code does not do this:
  the test of line 196 is \<open>count > config.outlier && !loggedOutliers[documentID]\<close>, so
  for a registered key it is false and the record goes on to the partition update. With
  threshold 5 and the record (1, 10) twice, the second one is admitted: there is one
  notice, and the partition ends at 10.
\<close>

theorem repeated_outlier_is_admitted:
  "run (exampleConfig 1 0 100 5 [[''1'', ''10''], [''1'', ''10'']]) = Some (Continue,
        \<lparr> partitionList = [\<lparr> current = 10, max_p = 100, errored = False \<rparr>],
          result = \<lparr> totalDocuments = 2, totalIDs = 20, partitionCounts = [10] \<rparr>,
          erroredPartitions = 0, pinnedMessages = [OutlierNotice 1 10 0],
          loggedOutliers = (\<lambda>_. False)(1 := True) \<rparr>)"
proof -
  have "parseRecord [''1'', ''10''] = Parsed 1 10"
    by (simp add: parseRecord_def parse_defs)
  then show ?thesis
    by (simp add: run_single processRecord_def routeRecord_def countRecord_def
        initState_def Let_def)
qed


section \<open>Termination, and the scenario of the test suite\<close>

lemma sint_succ:
  fixes x :: "64 word"
  assumes "sint x < 2 ^ 63 - 1"
  shows "sint (x + 1) = sint x + 1"
proof -
  have "- (2 ^ 63) \<le> sint x"
    using sint_ge [of x] by simp
  then have "signed_take_bit 63 (sint x + 1) = sint x + 1"
    using assms by (intro signed_take_bit_int_eq_self) simp_all
  then show ?thesis
    by (simp add: sint_word_ariths)
qed

text \<open>
  Unless \<open>config.iterations\<close> is the largest \<open>int\<close>, the iteration loop ends and
  \<open>ProcessCSV\<close> returns or panics.
\<close>

lemma iterate_terminates:
  assumes "sint (iterations config) < 2 ^ 63 - 1"
  shows "\<exists>r. iterate config iteration st = Some r"
proof (induction "nat (sint (iterations config) - sint iteration + 1)" arbitrary: iteration st)
  case 0
  then have "\<not> iteration \<le>s iterations config"
    by (simp add: word_sle_eq)
  then show ?case by (simp add: iterate_done)
next
  case (Suc n)
  show ?case
  proof (cases "iteration \<le>s iterations config")
    case False
    then show ?thesis by (simp add: iterate_done)
  next
    case True
    obtain fl st' where s: "scanFile config st = (fl, st')"
      by (cases "scanFile config st")
    show ?thesis
    proof (cases "fl = Continue")
      case False
      then show ?thesis using iterate_stop [OF True s] by simp
    next
      case c: True
      have "sint iteration < 2 ^ 63 - 1"
        using True assms by (simp add: word_sle_eq)
      then have "sint (iteration + 1) = sint iteration + 1"
        by (rule sint_succ)
      then have "n = nat (sint (iterations config) - sint (iteration + 1) + 1)"
        using Suc.hyps(2) by simp
      then have "\<exists>r. iterate config (iteration + 1) st' = Some r"
        by (rule Suc.hyps(1))
      then show ?thesis
        using iterate_next [OF True, of st st'] s c by simp
    qed
  qed
qed

lemma ProcessCSV_terminates:
  assumes "sint (iterations config) < 2 ^ 63 - 1"
  shows "\<exists>out. ProcessCSV config = Some out"
proof -
  obtain r where "run config = Some r"
    using iterate_terminates [OF assms] unfolding run_def by blast
  then show ?thesis
    by (cases r; cases "fst r") (auto simp: ProcessCSV_def)
qed

text \<open>
  \<open>TestAllPartitionsErrored\<close> of the test suite: ten keys 1 to 10 of weight 11, three
  partitions of capacity 10. Keys 1, 2 and 3 fall into partitions 2, 1 and 0, so the third
  record errors the last partition: three documents, 33 IDs, and the error for all
  partitions, as the test asserts.
\<close>

lemma partitionIndex_test_keys:
  "partitionIndex 3 1 = Some 2" "partitionIndex 3 2 = Some 1" "partitionIndex 3 3 = Some 0"
proof -
  have "hash 1 mod 3 = 2" "hash 2 mod 3 = 1" "hash 3 mod 3 = 0"
    by code_simp+
  then show "partitionIndex 3 1 = Some 2" "partitionIndex 3 2 = Some 1"
    "partitionIndex 3 3 = Some 0"
    by (simp_all add: partitionIndex_def)
qed

lemma parse_test_rows:
  "parseRecord [''1'', ''11''] = Parsed 1 11"
  "parseRecord [''2'', ''11''] = Parsed 2 11"
  "parseRecord [''3'', ''11''] = Parsed 3 11"
  by (simp_all add: parseRecord_def parse_defs)

lemma test_all_partitions_errored:
  "ProcessCSV (exampleConfig 3 0 10 0x7fffffffffffffff
       [[''1'', ''11''], [''2'', ''11''], [''3'', ''11''], [''4'', ''11''], [''5'', ''11''],
        [''6'', ''11''], [''7'', ''11''], [''8'', ''11''], [''9'', ''11''], [''10'', ''11'']])
     = Some (Returned \<lparr> totalDocuments = 3, totalIDs = 33, partitionCounts = [0, 0, 0] \<rparr>
               (Some (NewErr ''all partitions have exceeded their maximum value'')))"
  by (simp add: ProcessCSV_def run_single finish_def classify_def word_sless_alt
      processRecord_def parse_test_rows routeRecord_def countRecord_def initState_def Let_def
      partitionIndex_test_keys numeral_3_eq_3)


end
